theory Spec2Isabelle
  imports Complex_Main "HOL-Library.Word"
begin

section \<open>extractDemHeight: the DEM lookup of src/extractDemHeight.c\<close>

text \<open>
  The program opens a GeoTIFF, maps a latitude/longitude pair to a line and a pixel
  through a hardcoded one-degree grid, reads that scanline and prints the sample.

  Conventions of the embedding.
  \<^item> The C variables of type \<open>float\<close> and \<open>double\<close> are real numbers (the two fields
    that hold a quotient can also be non-finite, see \<open>double\<close> below). Every
    value the checked path computes from them is exact in binary floating point: a
    \<open>float\<close> between -48 and 158 is a multiple of \<open>2^-17\<close> or finer, so its difference
    to -8.0 or 108.0 is exact in \<open>double\<close>, and no \<open>float\<close> lies between the decimal
    157.99999999 and the \<open>double\<close> nearest to it. Lat and Long are finite numbers (not NaN).
  \<^item> The header extractDemHeight.h, which declares the struct \<open>Gtif\<close> and the globals
    \<open>verbose\<close>, \<open>jpgWidth\<close>, \<open>jpgHeight\<close>, is not among the sources. The integer fields
    are therefore unbounded (\<open>nat\<close> for the unsigned tag values libtiff delivers, \<open>int\<close>
    for the fields the code treats as signed), and nothing here speaks about overflow.
  \<^item> The process and its libraries (libc's allocator, libtiff) are an explicit \<open>world\<close>:
    the heap, the table of open TIFF handles, the files that can be opened, and the
    trace of what the process printed and which library calls it made.
  \<^item> A function that can end the process returns a sum: \<open>Inl (stop, world)\<close> when
    it called \<open>exit\<close> or ran into undefined behaviour, \<open>Inr (result, world)\<close> when it
    returned.
\<close>

subsection \<open>The world: heap, TIFF library, trace\<close>

type_synonym addr = nat
type_synonym handle = nat

text \<open>What a behaviour that C leaves undefined was, at the point where the model stops.\<close>

datatype fault =
    NullDereference
  | NullHandle
  | WildPointer
  | UseAfterFree
  | DoubleFree
  | OutOfBounds
  | UninitialisedRead
  | NonFiniteDouble

datatype stop = Exit int | Undefined fault

text \<open>The lines written to stderr, one constructor per \<open>fprintf (stderr, ...)\<close>.\<close>

datatype diag =
    CannotOpenFile string
  | CannotExtractBitsPerSample string
  | CannotExtractPixelSize
  | CannotExtractTiePoints
  | CannotAllocateScanline int
  | UnsupportedBitsPerSample nat
  | LatOutOfRange real
  | LongOutOfRange real
  | LineNoOutOfRange int nat
  | PixelNoOutOfRange int nat
  | FailedReadingScanline

datatype event =
    Stderr diag
  | StdoutParams string nat nat nat nat int
  | StdoutCpuTime
  | StdoutResult int int "16 word"
  | Malloc int "addr option"
  | Free addr
  | TiffOpened string handle
  | TiffReadScanline handle nat
  | TiffClosed handle

text \<open>
  A heap block: the size \<open>malloc\<close> was asked for, and what has been stored in it so
  far, by element index of the pointer type it is used through (a cell that was never
  written is absent).
\<close>

datatype cell = U16 "16 word" | Ptr "addr option"

record block =
  bsize :: nat
  cells :: "nat \<rightharpoonup> cell"

text \<open>
  A TIFF file as libtiff presents it: the tags \<open>TIFFGetField\<close> can deliver (absent
  when the call returns 0) and, per row, the samples \<open>TIFFReadScanline\<close> stores into
  the caller's buffer (absent when the call reports failure).
\<close>

record tiff =
  tagSamplesPerPixel :: "nat option"
  tagBitsPerSample :: "nat option"
  tagImageWidth :: "nat option"
  tagImageLength :: "nat option"
  tagPixelScale :: "real list option"
  tagTiePoints :: "real list option"
  scanlineData :: "nat \<Rightarrow> 16 word list option"

text \<open>
  \<open>heap\<close>: address = index, \<open>None\<close> once freed. \<open>tifs\<close>: handle = index,
  \<open>None\<close> once closed. \<open>mallocPlan\<close>: whether the coming \<open>malloc\<close> requests
  succeed, in order (requests beyond the plan succeed). The argument of \<open>malloc\<close> is
  the signed value the code computes: a negative one converts to a \<open>size_t\<close> no
  allocator can serve, and the request fails.
  \<open>jpgWidth\<close>, \<open>jpgHeight\<close>: the header that declares them is missing, so they are
  parameters (the specification calls them a fixed reference image size).
\<close>

record world =
  files :: "string \<Rightarrow> tiff option"
  mallocPlan :: "bool list"
  heap :: "block option list"
  tifs :: "tiff option list"
  verbose :: bool
  jpgWidth :: nat
  jpgHeight :: nat
  trace :: "event list"

type_synonym 'a result = "(stop \<times> world) + ('a \<times> world)"

definition emit :: "event \<Rightarrow> world \<Rightarrow> world" where
  "emit e w = w\<lparr>trace := trace w @ [e]\<rparr>"

definition malloc :: "int \<Rightarrow> world \<Rightarrow> addr option \<times> world" where
  "malloc n w =
     (if n < 0 then (None, emit (Malloc n None) w)
      else
        (let ok = (case mallocPlan w of [] \<Rightarrow> True | b # _ \<Rightarrow> b);
             w1 = w\<lparr>mallocPlan := tl (mallocPlan w)\<rparr>;
             a = length (heap w)
         in if ok
            then (Some a, emit (Malloc n (Some a))
                    (w1\<lparr>heap := heap w @ [Some \<lparr>bsize = nat n, cells = Map.empty\<rparr>]\<rparr>))
            else (None, emit (Malloc n None) w1)))"

text \<open>Looking a pointer up: the block it points to, or the fault of dereferencing it.\<close>

definition deref :: "addr option \<Rightarrow> world \<Rightarrow> fault + (addr \<times> block)" where
  "deref p w =
     (case p of
        None \<Rightarrow> Inl NullDereference
      | Some a \<Rightarrow>
          if length (heap w) \<le> a then Inl WildPointer
          else (case heap w ! a of None \<Rightarrow> Inl UseAfterFree | Some b \<Rightarrow> Inr (a, b)))"

definition free :: "addr option \<Rightarrow> world \<Rightarrow> unit result" where
  "free p w =
     (case p of
        None \<Rightarrow> Inr ((), w)
      | Some a \<Rightarrow>
          if length (heap w) \<le> a then Inl (Undefined WildPointer, w)
          else (case heap w ! a of
                  None \<Rightarrow> Inl (Undefined DoubleFree, w)
                | Some b \<Rightarrow> Inr ((), emit (Free a) (w\<lparr>heap := (heap w)[a := None]\<rparr>))))"

text \<open>
  \<open>p[i] = q\<close> and \<open>p[i]\<close> for a \<open>uint16 **p\<close>, and \<open>p[i]\<close> for a \<open>uint16 *p\<close>.
  A \<open>uint16\<close> takes two bytes, so an index is checked against the block's size; the
  size of a pointer depends on the platform, so pointer tables are not bounds-checked.
\<close>

definition storePtr :: "addr option \<Rightarrow> nat \<Rightarrow> addr option \<Rightarrow> world \<Rightarrow> unit result" where
  "storePtr p i q w =
     (case deref p w of
        Inl f \<Rightarrow> Inl (Undefined f, w)
      | Inr (a, b) \<Rightarrow>
          Inr ((), w\<lparr>heap := (heap w)[a := Some (b\<lparr>cells := (cells b)(i \<mapsto> Ptr q)\<rparr>)]\<rparr>))"

definition loadPtr :: "addr option \<Rightarrow> nat \<Rightarrow> world \<Rightarrow> (addr option) result" where
  "loadPtr p i w =
     (case deref p w of
        Inl f \<Rightarrow> Inl (Undefined f, w)
      | Inr (a, b) \<Rightarrow>
          (case cells b i of
             Some (Ptr q) \<Rightarrow> Inr (q, w)
           | _ \<Rightarrow> Inl (Undefined UninitialisedRead, w)))"

definition loadU16 :: "addr option \<Rightarrow> int \<Rightarrow> world \<Rightarrow> (16 word) result" where
  "loadU16 p i w =
     (case deref p w of
        Inl f \<Rightarrow> Inl (Undefined f, w)
      | Inr (a, b) \<Rightarrow>
          if i < 0 \<or> int (bsize b) < 2 * (i + 1) then Inl (Undefined OutOfBounds, w)
          else (case cells b (nat i) of
                  Some (U16 v) \<Rightarrow> Inr (v, w)
                | _ \<Rightarrow> Inl (Undefined UninitialisedRead, w)))"

text \<open>libtiff. \<open>TIFFOpen (name, "r")\<close> returns a fresh handle or NULL.\<close>

definition TIFFOpen :: "string \<Rightarrow> world \<Rightarrow> handle option \<times> world" where
  "TIFFOpen name w =
     (case files w name of
        None \<Rightarrow> (None, w)
      | Some t \<Rightarrow>
          (Some (length (tifs w)),
           emit (TiffOpened name (length (tifs w))) (w\<lparr>tifs := tifs w @ [Some t]\<rparr>)))"

definition tiffOf :: "handle option \<Rightarrow> world \<Rightarrow> fault + (handle \<times> tiff)" where
  "tiffOf h w =
     (case h of
        None \<Rightarrow> Inl NullHandle
      | Some k \<Rightarrow>
          if length (tifs w) \<le> k then Inl WildPointer
          else (case tifs w ! k of None \<Rightarrow> Inl UseAfterFree | Some t \<Rightarrow> Inr (k, t)))"

fun storeSamples :: "16 word list \<Rightarrow> nat \<Rightarrow> (nat \<rightharpoonup> cell) \<Rightarrow> (nat \<rightharpoonup> cell)" where
  "storeSamples [] i m = m"
| "storeSamples (v # vs) i m = storeSamples vs (Suc i) (m(i \<mapsto> U16 v))"

text \<open>
  \<open>TIFFReadScanline (tif, buf, row, 0)\<close>: the result is \<open>True\<close> for a return value
  above 0. On success the row's samples are in \<open>buf\<close> from index 0; a buffer
  that is NULL, freed or too small for them is undefined behaviour.
\<close>

definition TIFFReadScanline :: "handle option \<Rightarrow> addr option \<Rightarrow> nat \<Rightarrow> world \<Rightarrow> bool result" where
  "TIFFReadScanline h buf row w =
     (case tiffOf h w of
        Inl f \<Rightarrow> Inl (Undefined f, w)
      | Inr (k, t) \<Rightarrow>
          (case deref buf w of
             Inl f \<Rightarrow> Inl (Undefined f, w)
           | Inr (a, b) \<Rightarrow>
               (let w1 = emit (TiffReadScanline k row) w in
                case scanlineData t row of
                  None \<Rightarrow> Inr (False, w1)
                | Some vs \<Rightarrow>
                    if bsize b < 2 * length vs then Inl (Undefined OutOfBounds, w1)
                    else Inr (True,
                           w1\<lparr>heap := (heap w1)[a := Some (b\<lparr>cells := storeSamples vs 0 (cells b)\<rparr>)]\<rparr>))))"

definition TIFFClose :: "handle option \<Rightarrow> world \<Rightarrow> unit result" where
  "TIFFClose h w =
     (case tiffOf h w of
        Inl f \<Rightarrow> Inl (Undefined f, w)
      | Inr (k, t) \<Rightarrow> Inr ((), emit (TiffClosed k) (w\<lparr>tifs := (tifs w)[k := None]\<rparr>)))"

subsection \<open>The session record and the conversions\<close>

datatype endian = LITTLE_ENDIAN | BIG_ENDIAN

text \<open>
  A double that is the result of a division: a division by 0 gives an infinity or NaN,
  which is \<open>NonFinite\<close>.
\<close>

datatype double = Finite real | NonFinite

definition c_div :: "real \<Rightarrow> real \<Rightarrow> double" where
  "c_div x y = (if y = 0 then NonFinite else Finite (x / y))"

text \<open>
  The struct \<open>Gtif\<close>, with the fields the source file uses. \<open>tif\<close> and \<open>scanlines\<close>
  are pointers (\<open>None\<close> is NULL); the scanline table itself lives in the heap.
  \<open>UL\<close>, \<open>LL\<close>, \<open>UR\<close>, \<open>LR\<close> are the arrays of three doubles (x, y, z).
\<close>

record Gtif =
  tif :: "handle option"
  samplesPerPixel :: nat
  bitsPerSample :: nat
  width :: nat
  height :: nat
  scaleX :: double
  scaleY :: double
  pixelSize :: "real list"
  tiePoints :: "real list"
  windowSize :: int
  scanlineSize :: int
  byteOrder :: endian
  lineNo :: int
  scanlines :: "addr option"
  UL :: "real list"
  LL :: "real list"
  UR :: "real list"
  LR :: "real list"

text \<open>The cast \<open>(int) x\<close> of a finite double: the fractional part is discarded.\<close>

definition c_int :: "real \<Rightarrow> int" where
  "c_int x = (if 0 \<le> x then \<lfloor>x\<rfloor> else \<lceil>x\<rceil>)"

subsection \<open>setupGtif\<close>

text \<open>Lines 168-169: the adjustment of bitsPerSample.\<close>

definition normaliseBits :: "nat \<Rightarrow> nat" where
  "normaliseBits b = (if 8 < b \<and> b \<le> 16 then 16 else b)"

text \<open>
  Lines 202-210: the loop that allocates the scanline buffers. The buffer is requested
  and its pointer stored in the table before the pointer is tested.
\<close>

function allocScanlines :: "int \<Rightarrow> Gtif \<Rightarrow> world \<Rightarrow> unit result" where
  "allocScanlines i gtif w =
     (if i < windowSize gtif then
        (let (q, w1) = malloc (scanlineSize gtif) w in
         case storePtr (scanlines gtif) (nat i) q w1 of
           Inl e \<Rightarrow> Inl e
         | Inr (u, w2) \<Rightarrow>
             if q = None
             then Inl (Exit 13, emit (Stderr (CannotAllocateScanline (i + 1))) w2)
             else allocScanlines (i + 1) gtif w2)
      else Inr ((), w))"
  by pat_completeness auto
termination
  by (relation "measure (\<lambda>(i, gtif, w). nat (windowSize gtif - i))") auto

declare allocScanlines.simps [simp del]

text \<open>
  Lines 161-229, once the file is open (\<open>t\<close> is the file behind the handle).
  A tag that \<open>TIFFGetField\<close> does not deliver leaves its field as it was. When
  \<open>jpgHeight\<close> is 0, scaleY is infinite or NaN and its cast to \<open>int\<close> in line 187 is
  undefined.
\<close>

definition setupOpened :: "Gtif \<Rightarrow> string \<Rightarrow> tiff \<Rightarrow> world \<Rightarrow> (bool \<times> Gtif) result" where
  "setupOpened gtif fileName t w =
     (let g1 = (case tagSamplesPerPixel t of None \<Rightarrow> gtif | Some v \<Rightarrow> gtif\<lparr>samplesPerPixel := v\<rparr>) in
      case tagBitsPerSample t of
        None \<Rightarrow> Inr ((False, g1), emit (Stderr (CannotExtractBitsPerSample fileName)) w)
      | Some b \<Rightarrow>
          (let g2 = g1\<lparr>bitsPerSample := normaliseBits b\<rparr>;
               g3 = (case tagImageWidth t of None \<Rightarrow> g2 | Some v \<Rightarrow> g2\<lparr>width := v\<rparr>);
               g4 = (case tagImageLength t of None \<Rightarrow> g3 | Some v \<Rightarrow> g3\<lparr>height := v\<rparr>)
           in
           let g5 = g4\<lparr>scaleX := c_div (real (width g4)) (real (jpgWidth w)),
                       scaleY := c_div (real (height g4)) (real (jpgHeight w))\<rparr> in
           case tagPixelScale t of
             None \<Rightarrow> Inl (Exit 11, emit (Stderr CannotExtractPixelSize) w)
           | Some ps \<Rightarrow>
               (let g6 = g5\<lparr>pixelSize := ps\<rparr> in
                case scaleY g6 of
                  NonFinite \<Rightarrow> Inl (Undefined NonFiniteDouble, w)
                | Finite sy \<Rightarrow>
                    (let g7 = g6\<lparr>windowSize := c_int (sy + 1)\<rparr>;
                         g8 = g7\<lparr>scanlineSize := int (width g7) * int (bitsPerSample g7 div 8)\<rparr>;
                         g9 = g8\<lparr>byteOrder := LITTLE_ENDIAN, lineNo := - 1\<rparr>
                     in
                     case tagTiePoints t of
                       None \<Rightarrow> Inl (Exit 11, emit (Stderr CannotExtractTiePoints) w)
                     | Some tp \<Rightarrow>
                         (let g10 = g9\<lparr>tiePoints := tp\<rparr>;
                              (p, w1) = malloc (scanlineSize g10 * windowSize g10) w;
                              g11 = g10\<lparr>scanlines := p\<rparr>
                          in
                          case allocScanlines 0 g11 w1 of
                            Inl e \<Rightarrow> Inl e
                          | Inr (u, w2) \<Rightarrow>
                              if bitsPerSample g11 \<noteq> 16
                              then Inl (Exit 11,
                                     emit (Stderr (UnsupportedBitsPerSample (bitsPerSample g11))) w2)
                              else
                                Inr ((True, g11),
                                     if verbose w2
                                     then emit (StdoutParams fileName (samplesPerPixel g11)
                                            (bitsPerSample g11) (width g11) (height g11)
                                            (scanlineSize g11)) w2
                                     else w2))))))"

text \<open>Lines 147-159, then the rest. The result is the returned boolean and the struct.\<close>

definition setupGtif :: "Gtif \<Rightarrow> string option \<Rightarrow> world \<Rightarrow> (bool \<times> Gtif) result" where
  "setupGtif gtif fileName w =
     (case fileName of
        None \<Rightarrow> Inr ((False, gtif), w)
      | Some name \<Rightarrow>
          (let (h, w1) = TIFFOpen name w;
               g1 = gtif\<lparr>tif := h\<rparr>
           in
           if h = None then Inr ((False, g1), emit (Stderr (CannotOpenFile name)) w1)
           else
             (case tiffOf h w1 of
                Inl f \<Rightarrow> Inl (Undefined f, w1)
              | Inr (k, t) \<Rightarrow> setupOpened g1 name t w1)))"

subsection \<open>readDEMvalue\<close>

text \<open>
  Lines 115-143. \<open>(uint32) LineNo\<close> wraps a negative line number. The message of the
  failing read prints the variable gtifY, which is never assigned.
\<close>

definition readDEMvalue :: "Gtif \<Rightarrow> int \<Rightarrow> int \<Rightarrow> world \<Rightarrow> (16 word) result" where
  "readDEMvalue inGtif LineNo PixelNo w =
     (let (tmpBuf, w1) = malloc (scanlineSize inGtif) w in
      case TIFFReadScanline (tif inGtif) tmpBuf (nat (LineNo mod 2 ^ 32)) w1 of
        Inl e \<Rightarrow> Inl e
      | Inr (ok, w2) \<Rightarrow>
          if \<not> ok then Inl (Exit 11, emit (Stderr FailedReadingScanline) w2)
          else
            (case loadU16 tmpBuf PixelNo w2 of
               Inl e \<Rightarrow> Inl e
             | Inr (ElevValue, w3) \<Rightarrow>
                 (case free tmpBuf w3 of
                    Inl e \<Rightarrow> Inl e
                  | Inr (u, w4) \<Rightarrow> Inr (ElevValue, w4))))"

subsection \<open>closeGtif\<close>

text \<open>Lines 239-243: the loop over the scanline table.\<close>

function freeScanlines :: "int \<Rightarrow> Gtif \<Rightarrow> world \<Rightarrow> unit result" where
  "freeScanlines i gtif w =
     (if i < windowSize gtif then
        (case loadPtr (scanlines gtif) (nat i) w of
           Inl e \<Rightarrow> Inl e
         | Inr (q, w1) \<Rightarrow>
             (case (if q \<noteq> None then free q w1 else Inr ((), w1)) of
                Inl e \<Rightarrow> Inl e
              | Inr (u, w2) \<Rightarrow> freeScanlines (i + 1) gtif w2))
      else Inr ((), w))"
  by pat_completeness auto
termination
  by (relation "measure (\<lambda>(i, gtif, w). nat (windowSize gtif - i))") auto

declare freeScanlines.simps [simp del]

text \<open>Lines 233-249. The argument is the pointer to the struct (\<open>None\<close> is NULL).\<close>

definition closeGtif :: "Gtif option \<Rightarrow> world \<Rightarrow> unit result" where
  "closeGtif p w =
     (case p of
        None \<Rightarrow> Inr ((), w)
      | Some gtif \<Rightarrow>
          (case freeScanlines 0 gtif w of
             Inl e \<Rightarrow> Inl e
           | Inr (u, w1) \<Rightarrow>
               (case free (scanlines gtif) w1 of
                  Inl e \<Rightarrow> Inl e
                | Inr (u, w2) \<Rightarrow>
                    if tif gtif \<noteq> None then TIFFClose (tif gtif) w2 else Inr ((), w2))))"

subsection \<open>main\<close>

text \<open>Lines 45-62: the corner coordinates and scales the program assumes.\<close>

definition assumeBox :: "Gtif \<Rightarrow> Gtif" where
  "assumeBox g =
     g\<lparr>UL := [108, - 8, 0],
       LL := [108, - 48, 0],
       UR := [15799999999 / 100000000, - 8, 0],
       LR := [15799999999 / 100000000, - 48, 0],
       scaleX := Finite 1,
       scaleY := Finite 1\<rparr>"

text \<open>Lines 64-72: the check of Lat and Long against the corners.\<close>

definition checkLatLong :: "Gtif \<Rightarrow> real \<Rightarrow> real \<Rightarrow> world \<Rightarrow> unit result" where
  "checkLatLong g Lat Long w =
     (if Lat > UL g ! 1 \<or> Lat < LR g ! 1
      then Inl (Exit 1, emit (Stderr (LatOutOfRange Lat)) w)
      else if Long < UL g ! 0 \<or> Long > LR g ! 0
      then Inl (Exit 1, emit (Stderr (LongOutOfRange Long)) w)
      else Inr ((), w))"

text \<open>Lines 80-81: the line and pixel number.\<close>

definition calcLinePixel :: "Gtif \<Rightarrow> real \<Rightarrow> real \<Rightarrow> int \<times> int" where
  "calcLinePixel g Lat Long = (c_int (- (Lat - UL g ! 1)), c_int (Long - LL g ! 0))"

text \<open>Lines 83-90: the check of the line and pixel number against the image size.\<close>

definition checkLinePixel :: "Gtif \<Rightarrow> int \<Rightarrow> int \<Rightarrow> world \<Rightarrow> unit result" where
  "checkLinePixel g LineNo PixelNo w =
     (if LineNo < 0 \<or> LineNo > int (height g)
      then Inl (Exit 1, emit (Stderr (LineNoOutOfRange LineNo (height g))) w)
      else if PixelNo < 0 \<or> PixelNo > int (width g)
      then Inl (Exit 1, emit (Stderr (PixelNoOutOfRange PixelNo (width g))) w)
      else Inr ((), w))"

text \<open>
  \<open>main\<close>, for the arguments DEM_file, Lat and Long as parsed from the command line.
  \<open>DEM_Gtif\<close> is what the uninitialised local variable holds when \<open>main\<close> starts. The
  value \<open>setupGtif\<close> returns is not used. Copying and parsing the arguments (lines
  32-37) and the timer are outside the model: the line that reports the elapsed time is
  the event \<open>StdoutCpuTime\<close>, and the string \<open>toTimeString\<close> allocates for it is not
  part of the heap here. Every path that returns ends in \<open>exit\<close>.
\<close>

definition main :: "Gtif \<Rightarrow> string \<Rightarrow> real \<Rightarrow> real \<Rightarrow> world \<Rightarrow> stop \<times> world" where
  "main DEM_Gtif DEM_file Lat Long w =
     (case setupGtif DEM_Gtif (Some DEM_file) (w\<lparr>verbose := True\<rparr>) of
        Inl e \<Rightarrow> e
      | Inr ((ok, g0), w1) \<Rightarrow>
          (let g = assumeBox g0 in
           case checkLatLong g Lat Long w1 of
             Inl e \<Rightarrow> e
           | Inr (u, w2) \<Rightarrow>
               (let (LineNo, PixelNo) = calcLinePixel g Lat Long in
                case checkLinePixel g LineNo PixelNo w2 of
                  Inl e \<Rightarrow> e
                | Inr (u, w3) \<Rightarrow>
                    (let w4 = (if verbose w3 then emit StdoutCpuTime w3 else w3) in
                     case readDEMvalue g LineNo PixelNo w4 of
                       Inl e \<Rightarrow> e
                     | Inr (ElevVal, w5) \<Rightarrow>
                         (case closeGtif (Some g) (emit (StdoutResult LineNo PixelNo ElevVal) w5) of
                            Inl e \<Rightarrow> e
                          | Inr (u, w6) \<Rightarrow> (Exit 0, w6))))))"

subsection \<open>Observations and sample inputs\<close>

text \<open>What a call ended with, without the world; and the world it ended in.\<close>

definition outcome :: "'a result \<Rightarrow> stop + 'a" where
  "outcome r = map_sum fst fst r"

definition rworld :: "'a result \<Rightarrow> world" where
  "rworld r = (case r of Inl (s, w) \<Rightarrow> w | Inr (x, w) \<Rightarrow> w)"

text \<open>The trace of the second world continues the trace of the first.\<close>

definition grows :: "world \<Rightarrow> world \<Rightarrow> bool" where
  "grows w w' \<longleftrightarrow> (\<exists>evs. trace w' = trace w @ evs)"

text \<open>The scanline reads of a trace, and the non-NULL pointers of a pointer table.\<close>

fun reads :: "event list \<Rightarrow> (handle \<times> nat) list" where
  "reads [] = []"
| "reads (TiffReadScanline k r # es) = (k, r) # reads es"
| "reads (e # es) = reads es"

definition nonNull :: "addr option list \<Rightarrow> addr list" where
  "nonNull ps = map the (filter (\<lambda>q. q \<noteq> None) ps)"

text \<open>The heap after the blocks at the given addresses have been freed.\<close>

fun clear :: "addr list \<Rightarrow> block option list \<Rightarrow> block option list" where
  "clear [] h = h"
| "clear (a # as) h = clear as (h[a := None])"

text \<open>
  An open session, as \<open>setupGtif\<close> leaves it: \<open>scanlines\<close> points to a live table that
  holds the \<open>windowSize\<close> pointers \<open>tbl\<close>, the buffers they point to are live, distinct
  and different from the table, and \<open>tif\<close> is NULL or an open handle.
\<close>

definition sessionOpen :: "Gtif \<Rightarrow> world \<Rightarrow> addr option list \<Rightarrow> bool" where
  "sessionOpen g w tbl \<longleftrightarrow>
     windowSize g = int (length tbl) \<and>
     (case deref (scanlines g) w of
        Inl f \<Rightarrow> False
      | Inr (p, b) \<Rightarrow>
          list_all (\<lambda>i. cells b i = Some (Ptr (tbl ! i))) [0..<length tbl] \<and>
          p \<notin> set (nonNull tbl)) \<and>
     distinct (nonNull tbl) \<and>
     list_all (\<lambda>a. a < length (heap w) \<and> heap w ! a \<noteq> None) (nonNull tbl) \<and>
     (case tif g of None \<Rightarrow> True | Some k \<Rightarrow> k < length (tifs w) \<and> tifs w ! k \<noteq> None)"


text \<open>
  A raster of 12 by 8 samples of 16 bits with the value 1234 at row 5, column 10, a
  raster of 8-bit samples, a world that holds both files, and the contents of an
  uninitialised \<open>Gtif\<close>.
\<close>

definition demoRow :: "nat \<Rightarrow> 16 word list" where
  "demoRow r = (if r = 5 then (replicate 12 0)[10 := 1234] else replicate 12 (word_of_nat r))"

definition demoTiff :: tiff where
  "demoTiff =
     \<lparr>tagSamplesPerPixel = Some 1, tagBitsPerSample = Some 16,
      tagImageWidth = Some 12, tagImageLength = Some 8,
      tagPixelScale = Some [1, 1, 0], tagTiePoints = Some [0, 0, 0, 108, - 8, 0],
      scanlineData = (\<lambda>r. if r < 8 then Some (demoRow r) else None)\<rparr>"

definition byteTiff :: tiff where
  "byteTiff = demoTiff\<lparr>tagBitsPerSample := Some 8\<rparr>"

definition demoWorld :: world where
  "demoWorld =
     \<lparr>files = (\<lambda>n. if n = ''dem.tif'' then Some demoTiff
                   else if n = ''byte.tif'' then Some byteTiff else None),
      mallocPlan = [], heap = [], tifs = [], verbose = False, jpgWidth = 4, jpgHeight = 4,
      trace = []\<rparr>"

definition garbage :: Gtif where
  "garbage =
     \<lparr>tif = Some 7, samplesPerPixel = 3, bitsPerSample = 5, width = 9, height = 9,
      scaleX = Finite 2, scaleY = Finite 3, pixelSize = [], tiePoints = [], windowSize = 4,
      scanlineSize = 6, byteOrder = BIG_ENDIAN, lineNo = 77, scanlines = Some 5,
      UL = [], LL = [], UR = [], LR = []\<rparr>"

section \<open>Properties\<close>

subsection \<open>Basic facts\<close>


lemma assumeBox_corners:
  "UL (assumeBox g) = [108, - 8, 0]"
  "LL (assumeBox g) = [108, - 48, 0]"
  "UR (assumeBox g) = [15799999999 / 100000000, - 8, 0]"
  "LR (assumeBox g) = [15799999999 / 100000000, - 48, 0]"
  by (simp_all add: assumeBox_def)

lemma assumeBox_size:
  "height (assumeBox g) = height g" "width (assumeBox g) = width g"
  "lineNo (assumeBox g) = lineNo g" "tif (assumeBox g) = tif g"
  "scanlines (assumeBox g) = scanlines g" "windowSize (assumeBox g) = windowSize g"
  "scanlineSize (assumeBox g) = scanlineSize g"
  by (simp_all add: assumeBox_def)

lemma emit_inject: "emit e w = emit e' w \<longleftrightarrow> e = e'"
proof
  assume "emit e w = emit e' w"
  then have "trace (emit e w) = trace (emit e' w)" by simp
  then show "e = e'" by (simp add: emit_def)
qed simp


subsection \<open>The line and pixel number\<close>



subsection \<open>The trace only grows\<close>

lemma grows_refl [simp]: "grows w w"
  by (simp add: grows_def)

lemma grows_trans: "grows w w' \<Longrightarrow> grows w' w'' \<Longrightarrow> grows w w''"
  by (auto simp: grows_def)

lemma grows_emit [simp]: "grows w (emit e w)"
  by (simp add: grows_def emit_def)

lemma grows_emit_trans: "grows w w' \<Longrightarrow> grows w (emit e w')"
  by (auto simp: grows_def emit_def)

lemma malloc_trace: "trace (snd (malloc n w)) = trace w @ [Malloc n (fst (malloc n w))]"
  by (simp add: malloc_def emit_def Let_def)

lemma malloc_grows: "malloc n w = (q, w') \<Longrightarrow> grows w w'"
  using malloc_trace [of n w] by (simp add: grows_def)

lemma free_grows: "grows w (rworld (free p w))"
  by (simp add: free_def rworld_def grows_def emit_def split: option.splits)

lemma loadU16_world: "rworld (loadU16 p i w) = w"
  by (simp add: loadU16_def rworld_def split: sum.splits option.splits cell.splits prod.splits)

lemma loadPtr_world: "rworld (loadPtr p i w) = w"
  by (simp add: loadPtr_def rworld_def split: sum.splits option.splits cell.splits prod.splits)

lemma TIFFReadScanline_grows: "grows w (rworld (TIFFReadScanline h b r w))"
  by (simp add: TIFFReadScanline_def rworld_def grows_def emit_def Let_def
      split: sum.splits option.splits prod.splits)

lemma TIFFClose_grows: "grows w (rworld (TIFFClose h w))"
  by (simp add: TIFFClose_def rworld_def grows_def emit_def Let_def
      split: sum.splits option.splits prod.splits)

lemma rworld_simps [simp]: "rworld (Inl (s, w)) = w" "rworld (Inr (x, w)) = w"
  by (simp_all add: rworld_def)

lemma readDEMvalue_grows:
  "\<exists>q evs. trace (rworld (readDEMvalue g r c w)) = trace w @ Malloc (scanlineSize g) q # evs"
proof -
  obtain q w1 where m: "malloc (scanlineSize g) w = (q, w1)" by (cases "malloc (scanlineSize g) w")
  then have t1: "trace w1 = trace w @ [Malloc (scanlineSize g) q]"
    using malloc_trace [of "scanlineSize g" w] by simp
  have "grows w1 (rworld (readDEMvalue g r c w))"
  proof (cases "TIFFReadScanline (tif g) q (nat (r mod 2 ^ 32)) w1")
    case (Inl e)
    then show ?thesis
      using m TIFFReadScanline_grows [of w1 "tif g" q "nat (r mod 2 ^ 32)"]
      by (cases e) (simp add: readDEMvalue_def)
  next
    case (Inr x)
    obtain ok w2 where x: "x = (ok, w2)" by (cases x)
    have g2: "grows w1 w2"
      using Inr x TIFFReadScanline_grows [of w1 "tif g" q "nat (r mod 2 ^ 32)"] by simp
    show ?thesis
    proof (cases ok)
      case False
      then show ?thesis using m Inr x g2 by (simp add: readDEMvalue_def grows_emit_trans)
    next
      case True
      show ?thesis
      proof (cases "loadU16 q c w2")
        case (Inl e)
        then show ?thesis
          using m Inr x g2 True loadU16_world [of q c w2]
          by (cases e) (simp add: readDEMvalue_def)
      next
        case (Inr y)
        obtain v w3 where y: "y = (v, w3)" by (cases y)
        have w3: "w3 = w2" using Inr y loadU16_world [of q c w2] by simp
        have "grows w2 (rworld (free q w2))" by (rule free_grows)
        then show ?thesis
          using m \<open>TIFFReadScanline (tif g) q (nat (r mod 2 ^ 32)) w1 = Inr x\<close> x g2 True Inr y w3
          by (cases "free q w2")
             (auto simp: readDEMvalue_def intro: grows_trans)
      qed
    qed
  qed
  then show ?thesis using t1 by (auto simp: grows_def)
qed

lemma freeScanlines_grows: "grows w (rworld (freeScanlines i g w))"
proof (induction i g w rule: freeScanlines.induct)
  case (1 i gtif w)
  show ?case
  proof (cases "i < windowSize gtif")
    case False
    then show ?thesis by (simp add: freeScanlines.simps)
  next
    case True
    show ?thesis
    proof (cases "loadPtr (scanlines gtif) (nat i) w")
      case (Inl e)
      then show ?thesis
        using True loadPtr_world [of "scanlines gtif" "nat i" w]
        by (cases e) (simp add: freeScanlines.simps [of i])
    next
      case (Inr x)
      obtain q w1 where x: "x = (q, w1)" by (cases x)
      have w1: "w1 = w" using Inr x loadPtr_world [of "scanlines gtif" "nat i" w] by simp
      show ?thesis
      proof (cases "if q \<noteq> None then free q w1 else Inr ((), w1)")
        case (Inl e)
        then have "grows w (rworld (Inl e :: unit result))"
          using free_grows [of w q] w1 by (auto split: if_splits)
        then show ?thesis
          using True Inr x Inl by (cases e) (simp add: freeScanlines.simps [of i])
      next
        case (Inr y)
        obtain u w2 where y: "y = (u, w2)" by (cases y)
        have "grows w w2"
          using Inr y free_grows [of w q] w1 by (auto split: if_splits)
        moreover have "grows w2 (rworld (freeScanlines (i + 1) gtif w2))"
          using "1.IH" [OF True \<open>loadPtr (scanlines gtif) (nat i) w = Inr x\<close> x [symmetric] Inr y [symmetric]] .
        ultimately show ?thesis
          using True \<open>loadPtr (scanlines gtif) (nat i) w = Inr x\<close> x Inr y
          by (simp add: freeScanlines.simps [of i] grows_trans)
      qed
    qed
  qed
qed

lemma closeGtif_grows: "grows w (rworld (closeGtif p w))"
proof (cases p)
  case None
  then show ?thesis by (simp add: closeGtif_def)
next
  case (Some g)
  show ?thesis
  proof (cases "freeScanlines 0 g w")
    case (Inl e)
    then show ?thesis using Some freeScanlines_grows [of w 0 g]
      by (cases e) (simp add: closeGtif_def)
  next
    case (Inr x)
    obtain u w1 where x: "x = (u, w1)" by (cases x)
    have g1: "grows w w1" using Inr x freeScanlines_grows [of w 0 g] by simp
    show ?thesis
    proof (cases "free (scanlines g) w1")
      case (Inl e)
      then show ?thesis using Some Inr x g1 free_grows [of w1 "scanlines g"]
        by (cases e) (auto simp: closeGtif_def intro: grows_trans)
    next
      case (Inr y)
      obtain u' w2 where y: "y = (u', w2)" by (cases y)
      have g2: "grows w w2" using Inr y g1 free_grows [of w1 "scanlines g"]
        by (auto intro: grows_trans)
      show ?thesis
        using Some \<open>freeScanlines 0 g w = Inr x\<close> x Inr y g2 TIFFClose_grows [of w2 "tif g"]
        by (auto simp: closeGtif_def intro: grows_trans)
    qed
  qed
qed

text \<open>The part of main after the two checks: everything it can end with has appended
  a first event that is the timing line or the request for the temporary buffer.\<close>

lemma lookup_trace:
  assumes "r = (let w4 = (if verbose w3 then emit StdoutCpuTime w3 else w3) in
                case readDEMvalue g LineNo PixelNo w4 of
                  Inl e \<Rightarrow> e
                | Inr (ElevVal, w5) \<Rightarrow>
                    (case closeGtif (Some g) (emit (StdoutResult LineNo PixelNo ElevVal) w5) of
                       Inl e \<Rightarrow> e
                     | Inr (u, w6) \<Rightarrow> (Exit 0, w6)))"
  shows "\<exists>e evs. trace (snd r) = trace w3 @ e # evs \<and> (e = StdoutCpuTime \<or> (\<exists>q. e = Malloc (scanlineSize g) q))"
proof -
  define w4 where "w4 = (if verbose w3 then emit StdoutCpuTime w3 else w3)"
  obtain q evs where rd: "trace (rworld (readDEMvalue g LineNo PixelNo w4)) = trace w4 @ Malloc (scanlineSize g) q # evs"
    using readDEMvalue_grows by blast
  have "\<exists>evs'. trace (snd r) = trace w4 @ Malloc (scanlineSize g) q # evs'"
  proof (cases "readDEMvalue g LineNo PixelNo w4")
    case (Inl e)
    then show ?thesis using rd assms w4_def by (cases e) (simp add: Let_def)
  next
    case (Inr x)
    obtain v w5 where x: "x = (v, w5)" by (cases x)
    define w5' where "w5' = emit (StdoutResult LineNo PixelNo v) w5"
    have t5: "trace w5' = trace w4 @ Malloc (scanlineSize g) q # evs @ [StdoutResult LineNo PixelNo v]"
      using rd Inr x by (simp add: w5'_def emit_def)
    have "grows w5' (rworld (closeGtif (Some g) w5'))" by (rule closeGtif_grows)
    then obtain evs2 where c: "trace (rworld (closeGtif (Some g) w5')) = trace w5' @ evs2"
      by (auto simp: grows_def)
    have "snd r = rworld (closeGtif (Some g) w5')"
      using assms Inr x w4_def w5'_def
      by (auto simp: Let_def split: sum.splits)
    then show ?thesis using c t5 by simp
  qed
  then show ?thesis by (auto simp: w4_def emit_def)
qed

lemma main_after_setup:
  assumes "setupGtif g0 (Some name) (w\<lparr>verbose := True\<rparr>) = Inr ((ok, g1), w1)"
  shows "main g0 name Lat Long w =
    (case checkLatLong (assumeBox g1) Lat Long w1 of
             Inl e \<Rightarrow> e
           | Inr (u, w2) \<Rightarrow>
               (let (LineNo, PixelNo) = calcLinePixel (assumeBox g1) Lat Long in
                case checkLinePixel (assumeBox g1) LineNo PixelNo w2 of
                  Inl e \<Rightarrow> e
                | Inr (u, w3) \<Rightarrow>
                    (let w4 = (if verbose w3 then emit StdoutCpuTime w3 else w3) in
                     case readDEMvalue (assumeBox g1) LineNo PixelNo w4 of
                       Inl e \<Rightarrow> e
                     | Inr (ElevVal, w5) \<Rightarrow>
                         (case closeGtif (Some (assumeBox g1)) (emit (StdoutResult LineNo PixelNo ElevVal) w5) of
                            Inl e \<Rightarrow> e
                          | Inr (u, w6) \<Rightarrow> (Exit 0, w6)))))"
  using assms by (simp add: main_def Let_def)

lemma checkLinePixel_cases:
  "checkLinePixel g r c w =
     (if r < 0 \<or> r > int (height g) then Inl (Exit 1, emit (Stderr (LineNoOutOfRange r (height g))) w)
      else if c < 0 \<or> c > int (width g) then Inl (Exit 1, emit (Stderr (PixelNoOutOfRange c (width g))) w)
      else Inr ((), w))"
  by (simp add: checkLinePixel_def)

text \<open>main, once both the setup returned and the geographic check passed.\<close>

lemma main_in_box:
  assumes s: "setupGtif g0 (Some name) (w\<lparr>verbose := True\<rparr>) = Inr ((ok, g1), w1)"
    and b: "- 48 \<le> Lat" "Lat \<le> - 8" "108 \<le> Long" "Long \<le> 15799999999 / 100000000"
  shows "main g0 name Lat Long w =
     (let (LineNo, PixelNo) = calcLinePixel (assumeBox g1) Lat Long in
                case checkLinePixel (assumeBox g1) LineNo PixelNo w1 of
                  Inl e \<Rightarrow> e
                | Inr (u, w3) \<Rightarrow>
                    (let w4 = (if verbose w3 then emit StdoutCpuTime w3 else w3) in
                     case readDEMvalue (assumeBox g1) LineNo PixelNo w4 of
                       Inl e \<Rightarrow> e
                     | Inr (ElevVal, w5) \<Rightarrow>
                         (case closeGtif (Some (assumeBox g1)) (emit (StdoutResult LineNo PixelNo ElevVal) w5) of
                            Inl e \<Rightarrow> e
                          | Inr (u, w6) \<Rightarrow> (Exit 0, w6))))"
proof -
  have "checkLatLong (assumeBox g1) Lat Long w1 = Inr ((), w1)"
    using b by (simp add: checkLatLong_def assumeBox_corners)
  then show ?thesis by (simp add: main_after_setup [OF s])
qed

lemma main_in_box_trace:
  assumes s: "setupGtif g0 (Some name) (w\<lparr>verbose := True\<rparr>) = Inr ((ok, g1), w1)"
    and b: "- 48 \<le> Lat" "Lat \<le> - 8" "108 \<le> Long" "Long \<le> 15799999999 / 100000000"
  shows "\<exists>e evs. trace (snd (main g0 name Lat Long w)) = trace w1 @ e # evs \<and>
            (e = StdoutCpuTime \<or> (\<exists>q. e = Malloc (scanlineSize g1) q) \<or>
             (\<exists>r h. e = Stderr (LineNoOutOfRange r h)) \<or> (\<exists>c h. e = Stderr (PixelNoOutOfRange c h)))"
proof -
  obtain r c where rc: "calcLinePixel (assumeBox g1) Lat Long = (r, c)"
    by (cases "calcLinePixel (assumeBox g1) Lat Long")
  note m = main_in_box [OF s b, unfolded rc, simplified]
  show ?thesis
  proof (cases "checkLinePixel (assumeBox g1) r c w1")
    case (Inl e)
    then have me: "main g0 name Lat Long w = e" using m by simp
    have "(\<exists>r h. e = (Exit 1, emit (Stderr (LineNoOutOfRange r h)) w1)) \<or>
          (\<exists>c h. e = (Exit 1, emit (Stderr (PixelNoOutOfRange c h)) w1))"
      using Inl by (auto simp: checkLinePixel_cases split: if_splits)
    then show ?thesis unfolding me by (auto simp: emit_def)
  next
    case (Inr x)
    then have x: "x = ((), w1)" by (auto simp: checkLinePixel_cases split: if_splits)
    have "main g0 name Lat Long w =
       (let w4 = (if verbose w1 then emit StdoutCpuTime w1 else w1) in
                     case readDEMvalue (assumeBox g1) r c w4 of
                       Inl e \<Rightarrow> e
                     | Inr (ElevVal, w5) \<Rightarrow>
                         (case closeGtif (Some (assumeBox g1)) (emit (StdoutResult r c ElevVal) w5) of
                            Inl e \<Rightarrow> e
                          | Inr (u, w6) \<Rightarrow> (Exit 0, w6)))"
      using m Inr x by simp
    from lookup_trace [OF this] show ?thesis by (auto simp: assumeBox_size)
  qed
qed


subsection \<open>The sample raster\<close>

lemma demo_setup:
  "\<exists>g1 w1. setupGtif garbage (Some ''dem.tif'') (demoWorld\<lparr>verbose := True\<rparr>) = Inr ((True, g1), w1)
      \<and> height g1 = 8 \<and> width g1 = 12"
proof -
  have "case setupGtif garbage (Some ''dem.tif'') (demoWorld\<lparr>verbose := True\<rparr>) of
          Inl e \<Rightarrow> False
        | Inr ((ok, g1), w1) \<Rightarrow> ok \<and> height g1 = 8 \<and> width g1 = 12"
    by code_simp
  then show ?thesis by (auto split: sum.splits)
qed

subsection \<open>The geographic range check\<close>

text \<open>
  C4. Whenever \<open>setupGtif\<close> returns, \<open>main\<close> ends at the check of lines 64-72, with
  exit status 1 and the message for Lat or the message for Long as its last output,
  exactly when Lat is greater than -8 (the upper-left latitude) or less than -48 (the
  lower-right latitude), or Long is less than 108 (the upper-left longitude) or greater
  than 157.99999999 (the lower-right longitude). The comparisons are strict, so the
  corner Lat = -8, Long = 108 is accepted.
\<close>

theorem geographic_check:
  assumes s: "setupGtif g0 (Some name) (w\<lparr>verbose := True\<rparr>) = Inr ((ok, g1), w1)"
  shows "(main g0 name Lat Long w = (Exit 1, emit (Stderr (LatOutOfRange Lat)) w1) \<or>
          main g0 name Lat Long w = (Exit 1, emit (Stderr (LongOutOfRange Long)) w1))
         \<longleftrightarrow> (Lat > - 8 \<or> Lat < - 48 \<or> Long < 108 \<or> Long > 15799999999 / 100000000)"
proof (cases "- 48 \<le> Lat \<and> Lat \<le> - 8 \<and> 108 \<le> Long \<and> Long \<le> 15799999999 / 100000000")
  case True
  then have b: "- 48 \<le> Lat" "Lat \<le> - 8" "108 \<le> Long" "Long \<le> 15799999999 / 100000000" by simp_all
  from main_in_box_trace [OF s b] obtain e evs where
    t: "trace (snd (main g0 name Lat Long w)) = trace w1 @ e # evs"
    and e: "e = StdoutCpuTime \<or> (\<exists>q. e = Malloc (scanlineSize g1) q) \<or>
             (\<exists>r h. e = Stderr (LineNoOutOfRange r h)) \<or> (\<exists>c h. e = Stderr (PixelNoOutOfRange c h))"
    by blast
  have "main g0 name Lat Long w \<noteq> (Exit 1, emit (Stderr d) w1)"
    if "d = LatOutOfRange Lat \<or> d = LongOutOfRange Long" for d
  proof
    assume "main g0 name Lat Long w = (Exit 1, emit (Stderr d) w1)"
    then have "trace (snd (main g0 name Lat Long w)) = trace w1 @ [Stderr d]"
      by (simp add: emit_def)
    with t have "e = Stderr d" by simp
    with e that show False by auto
  qed
  with True show ?thesis by auto
next
  case False
  then show ?thesis
    by (auto simp: main_after_setup [OF s] checkLatLong_def assumeBox_corners emit_inject)
qed

theorem geographic_check_witness:
  "\<exists>ok g1 w1.
     setupGtif garbage (Some ''dem.tif'') (demoWorld\<lparr>verbose := True\<rparr>) = Inr ((ok, g1), w1)
     \<and> (main garbage ''dem.tif'' (- 7999 / 1000) 108 demoWorld
          = (Exit 1, emit (Stderr (LatOutOfRange (- 7999 / 1000))) w1)
        \<or> main garbage ''dem.tif'' (- 7999 / 1000) 108 demoWorld
          = (Exit 1, emit (Stderr (LongOutOfRange 108)) w1))
     \<and> (main garbage ''dem.tif'' (- 9) 158 demoWorld
          = (Exit 1, emit (Stderr (LatOutOfRange (- 9))) w1)
        \<or> main garbage ''dem.tif'' (- 9) 158 demoWorld
          = (Exit 1, emit (Stderr (LongOutOfRange 158)) w1))
     \<and> \<not> (main garbage ''dem.tif'' (- 8) 108 demoWorld
          = (Exit 1, emit (Stderr (LatOutOfRange (- 8))) w1)
        \<or> main garbage ''dem.tif'' (- 8) 108 demoWorld
          = (Exit 1, emit (Stderr (LongOutOfRange 108)) w1))"
proof -
  obtain g1 w1 where
    s: "setupGtif garbage (Some ''dem.tif'') (demoWorld\<lparr>verbose := True\<rparr>) = Inr ((True, g1), w1)"
    using demo_setup by blast
  note t = geographic_check [OF s]
  have a: "main garbage ''dem.tif'' (- 7999 / 1000) 108 demoWorld
          = (Exit 1, emit (Stderr (LatOutOfRange (- 7999 / 1000))) w1)
        \<or> main garbage ''dem.tif'' (- 7999 / 1000) 108 demoWorld
          = (Exit 1, emit (Stderr (LongOutOfRange 108)) w1)"
    using t [of "- 7999 / 1000" 108] by simp
  have b: "main garbage ''dem.tif'' (- 9) 158 demoWorld
          = (Exit 1, emit (Stderr (LatOutOfRange (- 9))) w1)
        \<or> main garbage ''dem.tif'' (- 9) 158 demoWorld
          = (Exit 1, emit (Stderr (LongOutOfRange 158)) w1)"
    using t [of "- 9" 158] by simp
  have c: "\<not> (main garbage ''dem.tif'' (- 8) 108 demoWorld
          = (Exit 1, emit (Stderr (LatOutOfRange (- 8))) w1)
        \<or> main garbage ''dem.tif'' (- 8) 108 demoWorld
          = (Exit 1, emit (Stderr (LongOutOfRange 108)) w1))"
    using t [of "- 8" 108] by simp
  from s a b c show ?thesis by blast
qed

subsection \<open>The check of the line and pixel number\<close>



subsection \<open>The allocation loop\<close>

lemma reads_append: "reads (xs @ ys) = reads xs @ reads ys"
  by (induction xs rule: reads.induct) simp_all

lemma reads_emit:
  "reads (trace (emit e w)) = reads (trace w) @ reads [e]"
  by (simp add: emit_def reads_append)

lemma malloc_reads: "reads (trace (snd (malloc n w))) = reads (trace w)"
  by (simp add: malloc_trace reads_append)

lemma storePtr_trace: "trace (rworld (storePtr p i q w)) = trace w"
  by (simp add: storePtr_def split: sum.splits prod.splits)

lemma storePtr_stop: "storePtr p i q w = Inl (s, w') \<Longrightarrow> \<exists>f. s = Undefined f"
  by (auto simp: storePtr_def split: sum.splits prod.splits)

lemma allocScanlines_reads:
  "reads (trace (rworld (allocScanlines i g w))) = reads (trace w)"
proof (induction i g w rule: allocScanlines.induct)
  case (1 i gtif w)
  show ?case
  proof (cases "i < windowSize gtif")
    case False
    then show ?thesis by (simp add: allocScanlines.simps)
  next
    case True
    obtain q w1 where m: "malloc (scanlineSize gtif) w = (q, w1)"
      by (cases "malloc (scanlineSize gtif) w")
    have r1: "reads (trace w1) = reads (trace w)"
      using malloc_reads [of "scanlineSize gtif" w] m by simp
    show ?thesis
    proof (cases "storePtr (scanlines gtif) (nat i) q w1")
      case (Inl e)
      then show ?thesis
        using True m r1 storePtr_trace [of "scanlines gtif" "nat i" q w1]
        by (cases e) (simp add: allocScanlines.simps [of i])
    next
      case (Inr x)
      obtain u w2 where x: "x = (u, w2)" by (cases x)
      have r2: "reads (trace w2) = reads (trace w)"
        using Inr x r1 storePtr_trace [of "scanlines gtif" "nat i" q w1] by simp
      show ?thesis
      proof (cases "q = None")
        case qn: True
        then show ?thesis using True m Inr x r2
          by (simp add: allocScanlines.simps [of i] reads_emit)
      next
        case qs: False
        have "reads (trace (rworld (allocScanlines (i + 1) gtif w2))) = reads (trace w2)"
          using "1.IH" [OF True m [symmetric] refl Inr x [symmetric] qs] .
        moreover from qs obtain a where "q = Some a" by auto
        ultimately show ?thesis using True m Inr x r2
          by (simp add: allocScanlines.simps [of i])
      qed
    qed
  qed
qed

lemma allocScanlines_stop:
  "allocScanlines i g w = Inl (s, w') \<Longrightarrow> s = Exit 13 \<or> (\<exists>f. s = Undefined f)"
proof (induction i g w rule: allocScanlines.induct)
  case (1 i gtif w)
  from "1.prems" have True: "i < windowSize gtif"
    by (simp add: allocScanlines.simps [of i] split: if_splits)
  obtain q w1 where m: "malloc (scanlineSize gtif) w = (q, w1)"
    by (cases "malloc (scanlineSize gtif) w")
  show ?case
  proof (cases "storePtr (scanlines gtif) (nat i) q w1")
    case (Inl e)
    then show ?thesis
      using True m "1.prems" storePtr_stop [of "scanlines gtif" "nat i" q w1]
      by (cases e) (auto simp: allocScanlines.simps [of i])
  next
    case (Inr x)
    obtain u w2 where x: "x = (u, w2)" by (cases x)
    show ?thesis
    proof (cases "q = None")
      case qn: True
      then show ?thesis using True m Inr x "1.prems"
        by (simp add: allocScanlines.simps [of i])
    next
      case qs: False
      from qs obtain a where qa: "q = Some a" by auto
      have "allocScanlines (i + 1) gtif w2 = Inl (s, w')"
        using True m Inr x qa "1.prems" by (simp add: allocScanlines.simps [of i])
      then show ?thesis
        using "1.IH" [OF True m [symmetric] refl Inr x [symmetric] qs] by simp
    qed
  qed
qed


subsection \<open>What setupGtif stores\<close>

lemma setupGtif_opened:
  assumes "files w name = Some t"
  shows "setupGtif g (Some name) w =
           setupOpened (g\<lparr>tif := Some (length (tifs w))\<rparr>) name t
             (emit (TiffOpened name (length (tifs w))) (w\<lparr>tifs := tifs w @ [Some t]\<rparr>))"
  using assms by (simp add: setupGtif_def TIFFOpen_def tiffOf_def emit_def)

lemma setupGtif_True:
  assumes "setupGtif g (Some name) w = Inr ((True, g'), w')"
  shows "\<exists>t. files w name = Some t \<and>
           setupOpened (g\<lparr>tif := Some (length (tifs w))\<rparr>) name t
             (emit (TiffOpened name (length (tifs w))) (w\<lparr>tifs := tifs w @ [Some t]\<rparr>))
           = Inr ((True, g'), w')"
proof (cases "files w name")
  case None
  then show ?thesis using assms by (simp add: setupGtif_def TIFFOpen_def)
next
  case (Some t)
  then show ?thesis using assms by (simp add: setupGtif_opened)
qed

text \<open>What a setup that returned TRUE has stored.\<close>

lemma setupOpened_True:
  assumes "setupOpened g name t w = Inr ((True, g'), w')"
  shows "\<exists>b. tagBitsPerSample t = Some b \<and> normaliseBits b = 16"
    and "bitsPerSample g' = 16"
    and "0 < jpgHeight w"
    and "scaleY g' = Finite (real (height g') / real (jpgHeight w))"
    and "windowSize g' = c_int (real (height g') / real (jpgHeight w) + 1)"
    and "scanlineSize g' = int (width g') * int (bitsPerSample g' div 8)"
    and "lineNo g' = - 1"
    and "tif g' = tif g"
  using assms
  by (auto simp: setupOpened_def Let_def c_div_def
      split: option.splits if_splits sum.splits prod.splits double.splits)

lemma allocScanlines_reads_Inl:
  "allocScanlines i g w = Inl (s, w') \<Longrightarrow> reads (trace w') = reads (trace w)"
  using allocScanlines_reads [of i g w] by simp

lemma allocScanlines_reads_Inr:
  "allocScanlines i g w = Inr (u, w') \<Longrightarrow> reads (trace w') = reads (trace w)"
  using allocScanlines_reads [of i g w] by simp

lemma malloc_reads_eq: "malloc n w = (q, w') \<Longrightarrow> reads (trace w') = reads (trace w)"
  using malloc_reads [of n w] by simp

lemma allocScanlines_not_11: "allocScanlines i g w = Inl (s, w') \<Longrightarrow> s \<noteq> Exit 11 \<and> s \<noteq> Exit 0"
  using allocScanlines_stop [of i g w s w'] by auto




lemma setupOpened_Inr:
  assumes "tagBitsPerSample t = Some b" "setupOpened g name t w = Inr ((ok, g'), w')"
  shows "bitsPerSample g' = normaliseBits b"
  using assms
  by (auto simp: setupOpened_def Let_def c_div_def
      split: option.splits if_splits sum.splits prod.splits double.splits)

lemma last_emit: "last (trace (emit e w)) = e"
  by (simp add: emit_def)

lemma setupOpened_Exit11:
  assumes "tagBitsPerSample t = Some b" "setupOpened g name t w = Inl (Exit 11, w')"
    "last (trace w') = Stderr (UnsupportedBitsPerSample n)"
  shows "n = normaliseBits b"
  using assms
  by (auto simp: setupOpened_def Let_def last_emit c_div_def
      split: option.splits if_splits sum.splits prod.splits double.splits
      dest: allocScanlines_not_11)

lemma c_int_floor: "0 \<le> x \<Longrightarrow> c_int (x + 1) = \<lfloor>x\<rfloor> + 1"
  by (simp add: c_int_def)





subsection \<open>The adjustment of bitsPerSample\<close>

text \<open>
  C7. A bitsPerSample value greater than 8 and at most 16 is adjusted to 16, and every
  other value is left as it is (lines 168-169). The adjusted value is what the setup
  goes on with: it is the bitsPerSample of the struct whenever \<open>setupGtif\<close> returns
  for a file that has the tag, and it is the value in the message when \<open>setupGtif\<close>
  stops because the sample depth is not supported.
\<close>

theorem bitsPerSample_normalised:
  assumes "files w name = Some t" "tagBitsPerSample t = Some b"
  shows "(8 < b \<and> b \<le> 16 \<longrightarrow> normaliseBits b = 16)
       \<and> (\<not> (8 < b \<and> b \<le> 16) \<longrightarrow> normaliseBits b = b)
       \<and> (\<forall>ok g' w'. setupGtif g (Some name) w = Inr ((ok, g'), w')
             \<longrightarrow> bitsPerSample g' = normaliseBits b)
       \<and> (\<forall>w' n. setupGtif g (Some name) w = Inl (Exit 11, w')
                 \<and> last (trace w') = Stderr (UnsupportedBitsPerSample n)
             \<longrightarrow> n = normaliseBits b)"
proof -
  note su = setupGtif_opened [OF assms(1), of g]
  have a: "(8 < b \<and> b \<le> 16 \<longrightarrow> normaliseBits b = 16)
       \<and> (\<not> (8 < b \<and> b \<le> 16) \<longrightarrow> normaliseBits b = b)"
    by (simp add: normaliseBits_def)
  have b: "bitsPerSample g' = normaliseBits b"
    if "setupGtif g (Some name) w = Inr ((ok, g'), w')" for ok g' w'
    using that setupOpened_Inr [OF assms(2)] unfolding su by blast
  have c: "n = normaliseBits b"
    if "setupGtif g (Some name) w = Inl (Exit 11, w')"
       "last (trace w') = Stderr (UnsupportedBitsPerSample n)" for w' n
    using that setupOpened_Exit11 [OF assms(2)] unfolding su by blast
  from a b c show ?thesis by blast
qed

theorem bitsPerSample_normalised_witness:
  "files demoWorld ''dem.tif'' = Some demoTiff \<and> tagBitsPerSample demoTiff = Some 16
   \<and> files demoWorld ''byte.tif'' = Some byteTiff \<and> tagBitsPerSample byteTiff = Some 8
   \<and> normaliseBits 12 = 16 \<and> normaliseBits 16 = 16 \<and> normaliseBits 8 = 8 \<and> normaliseBits 17 = 17
   \<and> (\<exists>ok g' w'. setupGtif garbage (Some ''dem.tif'') demoWorld = Inr ((ok, g'), w')
         \<and> bitsPerSample g' = 16)
   \<and> (\<exists>w'. setupGtif garbage (Some ''byte.tif'') demoWorld = Inl (Exit 11, w')
         \<and> last (trace w') = Stderr (UnsupportedBitsPerSample 8))"
proof -
  have h1: "files demoWorld ''dem.tif'' = Some demoTiff" by (simp add: demoWorld_def)
  have h2: "tagBitsPerSample demoTiff = Some 16" by (simp add: demoTiff_def)
  have h3: "files demoWorld ''byte.tif'' = Some byteTiff" by (simp add: demoWorld_def)
  have h4: "tagBitsPerSample byteTiff = Some 8" by (simp add: byteTiff_def)
  have n: "normaliseBits 12 = 16 \<and> normaliseBits 16 = 16 \<and> normaliseBits 8 = 8 \<and> normaliseBits 17 = 17"
    by (simp add: normaliseBits_def)
  have "case setupGtif garbage (Some ''dem.tif'') demoWorld of Inl e \<Rightarrow> False | Inr x \<Rightarrow> True"
    by code_simp
  then obtain ok g' w' where s: "setupGtif garbage (Some ''dem.tif'') demoWorld = Inr ((ok, g'), w')"
    by (cases "setupGtif garbage (Some ''dem.tif'') demoWorld") auto
  have b16: "bitsPerSample g' = 16"
    using bitsPerSample_normalised [OF h1 h2, of garbage] s n by simp
  have "case setupGtif garbage (Some ''byte.tif'') demoWorld of
          Inl (s, w') \<Rightarrow> s = Exit 11 \<and> last (trace w') = Stderr (UnsupportedBitsPerSample 8)
        | Inr x \<Rightarrow> False"
    by code_simp
  then obtain w'' where s2: "setupGtif garbage (Some ''byte.tif'') demoWorld = Inl (Exit 11, w'')"
    and l2: "last (trace w'') = Stderr (UnsupportedBitsPerSample 8)"
    by (cases "setupGtif garbage (Some ''byte.tif'') demoWorld") auto
  have e: "\<exists>ok g' w'. setupGtif garbage (Some ''dem.tif'') demoWorld = Inr ((ok, g'), w')
         \<and> bitsPerSample g' = 16"
    using s b16 by blast
  have f: "\<exists>w'. setupGtif garbage (Some ''byte.tif'') demoWorld = Inl (Exit 11, w')
         \<and> last (trace w') = Stderr (UnsupportedBitsPerSample 8)"
    using s2 l2 by blast
  from h1 h2 h3 h4 n e f show ?thesis by simp
qed

subsection \<open>The window size and the scanline size\<close>



subsection \<open>An unsupported sample depth\<close>



subsection \<open>readDEMvalue\<close>

lemma storeSamples_below: "k < i \<Longrightarrow> storeSamples vs i m k = m k"
  by (induction vs arbitrary: i m) auto

lemma storeSamples_nth:
  "j < length vs \<Longrightarrow> storeSamples vs i m (i + j) = Some (U16 (vs ! j))"
proof (induction vs arbitrary: i m j)
  case Nil
  then show ?case by simp
next
  case (Cons v vs)
  show ?case
  proof (cases j)
    case 0
    then show ?thesis by (simp add: storeSamples_below)
  next
    case (Suc j')
    then have "j' < length vs" using Cons.prems by simp
    from Cons.IH [OF this, of "Suc i" "m(i \<mapsto> U16 v)"] Suc show ?thesis
      by (simp add: fun_upd_def)
  qed
qed

lemma storeSamples_beyond: "i + length vs \<le> k \<Longrightarrow> storeSamples vs i m k = m k"
  by (induction vs arbitrary: i m) auto

lemma tiffOf_same_tifs: "tifs w1 = tifs w \<Longrightarrow> tiffOf h w1 = tiffOf h w"
  by (auto simp: tiffOf_def split: option.splits)

text \<open>The temporary buffer, once granted.\<close>

lemma malloc_head:
  assumes "0 \<le> n" "(case mallocPlan w of [] \<Rightarrow> True | b # _ \<Rightarrow> b)"
  shows "malloc n w = (Some (length (heap w)),
           emit (Malloc n (Some (length (heap w))))
             (w\<lparr>mallocPlan := tl (mallocPlan w),
                heap := heap w @ [Some \<lparr>bsize = nat n, cells = Map.empty\<rparr>]\<rparr>))"
  using assms by (simp add: malloc_def Let_def)

lemma malloc_cases:
  "malloc n w = (q, w1) \<Longrightarrow>
     (q = None \<and> heap w1 = heap w \<and> tifs w1 = tifs w) \<or>
     (q = Some (length (heap w)) \<and> tifs w1 = tifs w \<and> 0 \<le> n \<and>
      heap w1 = heap w @ [Some \<lparr>bsize = nat n, cells = Map.empty\<rparr>])"
  by (auto simp: malloc_def Let_def emit_def split: if_splits)

text \<open>readDEMvalue, step by step, for an open handle and a granted buffer.\<close>

lemma readDEMvalue_read_fails:
  assumes "tiffOf (tif g) w = Inr (k, t)" "0 \<le> scanlineSize g"
    "(case mallocPlan w of [] \<Rightarrow> True | b # _ \<Rightarrow> b)"
    "scanlineData t (nat (LineNo mod 2 ^ 32)) = None"
  shows "\<exists>w'. readDEMvalue g LineNo PixelNo w = Inl (Exit 11, emit (Stderr FailedReadingScanline) w')"
proof -
  define a where "a = length (heap w)"
  define blk where "blk = \<lparr>bsize = nat (scanlineSize g), cells = Map.empty\<rparr>"
  define w1 where "w1 = emit (Malloc (scanlineSize g) (Some a))
             (w\<lparr>mallocPlan := tl (mallocPlan w), heap := heap w @ [Some blk]\<rparr>)"
  have m: "malloc (scanlineSize g) w = (Some a, w1)"
    using malloc_head [OF assms(2,3)] by (simp add: a_def w1_def blk_def)
  have t1: "tiffOf (tif g) w1 = Inr (k, t)"
    using assms(1) tiffOf_same_tifs [of w1 w "tif g"] by (simp add: w1_def emit_def)
  have d1: "deref (Some a) w1 = Inr (a, blk)"
    by (simp add: deref_def w1_def a_def emit_def)
  have "TIFFReadScanline (tif g) (Some a) (nat (LineNo mod 2 ^ 32)) w1
          = Inr (False, emit (TiffReadScanline k (nat (LineNo mod 2 ^ 32))) w1)"
    using t1 d1 assms(4) by (simp add: TIFFReadScanline_def Let_def)
  then have "readDEMvalue g LineNo PixelNo w = Inl (Exit 11, emit (Stderr FailedReadingScanline)
         (emit (TiffReadScanline k (nat (LineNo mod 2 ^ 32))) w1))"
    using m by (simp add: readDEMvalue_def)
  then show ?thesis by blast
qed

lemma readDEMvalue_read_succeeds:
  assumes "tiffOf (tif g) w = Inr (k, t)" "0 \<le> scanlineSize g"
    "(case mallocPlan w of [] \<Rightarrow> True | b # _ \<Rightarrow> b)"
    "scanlineData t (nat (LineNo mod 2 ^ 32)) = Some vs"
  shows "(\<exists>w'. readDEMvalue g LineNo PixelNo w = Inl (Undefined OutOfBounds, w')) \<or>
         (\<exists>w'. readDEMvalue g LineNo PixelNo w = Inl (Undefined UninitialisedRead, w')) \<or>
         (\<exists>w'. readDEMvalue g LineNo PixelNo w = Inr (vs ! nat PixelNo, w')
            \<and> 2 * int (length vs) \<le> scanlineSize g \<and> 0 \<le> PixelNo \<and> PixelNo < int (length vs))"
proof -
  define a where "a = length (heap w)"
  define blk where "blk = \<lparr>bsize = nat (scanlineSize g), cells = Map.empty\<rparr>"
  define w1 where "w1 = emit (Malloc (scanlineSize g) (Some a))
             (w\<lparr>mallocPlan := tl (mallocPlan w), heap := heap w @ [Some blk]\<rparr>)"
  have m: "malloc (scanlineSize g) w = (Some a, w1)"
    using malloc_head [OF assms(2,3)] by (simp add: a_def w1_def blk_def)
  have t1: "tiffOf (tif g) w1 = Inr (k, t)"
    using assms(1) tiffOf_same_tifs [of w1 w "tif g"] by (simp add: w1_def emit_def)
  have d1: "deref (Some a) w1 = Inr (a, blk)"
    by (simp add: deref_def w1_def a_def emit_def)
  define row where "row = nat (LineNo mod 2 ^ 32)"
  define w1' where "w1' = emit (TiffReadScanline k row) w1"
  show ?thesis
  proof (cases "bsize blk < 2 * length vs")
    case True
    then have "TIFFReadScanline (tif g) (Some a) row w1 = Inl (Undefined OutOfBounds, w1')"
      using t1 d1 assms(4) by (simp add: TIFFReadScanline_def row_def w1'_def Let_def)
    then show ?thesis using m by (simp add: readDEMvalue_def row_def)
  next
    case False
    define blk2 where "blk2 = blk\<lparr>cells := storeSamples vs 0 (cells blk)\<rparr>"
    define w2 where "w2 = w1'\<lparr>heap := (heap w1')[a := Some blk2]\<rparr>"
    have rs: "TIFFReadScanline (tif g) (Some a) row w1 = Inr (True, w2)"
      using False t1 d1 assms(4)
      by (simp add: TIFFReadScanline_def row_def w1'_def w2_def blk2_def Let_def)
    have d2: "deref (Some a) w2 = Inr (a, blk2)"
      by (simp add: deref_def w2_def w1'_def w1_def a_def emit_def)
    have fits: "2 * int (length vs) \<le> scanlineSize g"
      using False assms(2) by (simp add: blk_def)
    show ?thesis
    proof (cases "PixelNo < 0 \<or> int (bsize blk2) < 2 * (PixelNo + 1)")
      case True
      then have "loadU16 (Some a) PixelNo w2 = Inl (Undefined OutOfBounds, w2)"
        using d2 by (simp add: loadU16_def)
      then show ?thesis using m rs by (simp add: readDEMvalue_def row_def)
    next
      case inb: False
      show ?thesis
      proof (cases "nat PixelNo < length vs")
        case True
        have "cells blk2 (nat PixelNo) = Some (U16 (vs ! nat PixelNo))"
          using storeSamples_nth [OF True, of 0 "cells blk"] by (simp add: blk2_def)
        then have ld: "loadU16 (Some a) PixelNo w2 = Inr (vs ! nat PixelNo, w2)"
          using d2 inb by (simp add: loadU16_def)
        have "\<exists>w4. free (Some a) w2 = Inr ((), w4)"
          by (simp add: free_def w2_def w1'_def w1_def a_def emit_def)
        then obtain w4 where fr: "free (Some a) w2 = Inr ((), w4)" by blast
        have "readDEMvalue g LineNo PixelNo w = Inr (vs ! nat PixelNo, w4)"
          using m rs ld fr by (simp add: readDEMvalue_def row_def)
        moreover have "0 \<le> PixelNo" "PixelNo < int (length vs)" using inb True by auto
        ultimately show ?thesis using fits by blast
      next
        case False
        have "cells blk2 (nat PixelNo) = None"
          using storeSamples_beyond [of 0 vs "nat PixelNo" "cells blk"] False
          by (simp add: blk2_def blk_def)
        then have "loadU16 (Some a) PixelNo w2 = Inl (Undefined UninitialisedRead, w2)"
          using d2 inb by (simp add: loadU16_def)
        then show ?thesis using m rs by (simp add: readDEMvalue_def row_def)
      qed
    qed
  qed
qed

lemma readDEMvalue_in_scanline:
  assumes "tiffOf (tif g) w = Inr (k, t)" "0 \<le> scanlineSize g"
    "(case mallocPlan w of [] \<Rightarrow> True | b # _ \<Rightarrow> b)"
    "scanlineData t (nat (LineNo mod 2 ^ 32)) = Some vs"
    "2 * int (length vs) \<le> scanlineSize g" "0 \<le> PixelNo" "PixelNo < int (length vs)"
  shows "\<exists>w'. readDEMvalue g LineNo PixelNo w = Inr (vs ! nat PixelNo, w')"
proof -
  define a where "a = length (heap w)"
  define blk where "blk = \<lparr>bsize = nat (scanlineSize g), cells = Map.empty\<rparr>"
  define w1 where "w1 = emit (Malloc (scanlineSize g) (Some a))
             (w\<lparr>mallocPlan := tl (mallocPlan w), heap := heap w @ [Some blk]\<rparr>)"
  have m: "malloc (scanlineSize g) w = (Some a, w1)"
    using malloc_head [OF assms(2,3)] by (simp add: a_def w1_def blk_def)
  have t1: "tiffOf (tif g) w1 = Inr (k, t)"
    using assms(1) tiffOf_same_tifs [of w1 w "tif g"] by (simp add: w1_def emit_def)
  have d1: "deref (Some a) w1 = Inr (a, blk)"
    by (simp add: deref_def w1_def a_def emit_def)
  define row where "row = nat (LineNo mod 2 ^ 32)"
  define w1' where "w1' = emit (TiffReadScanline k row) w1"
  define blk2 where "blk2 = blk\<lparr>cells := storeSamples vs 0 (cells blk)\<rparr>"
  define w2 where "w2 = w1'\<lparr>heap := (heap w1')[a := Some blk2]\<rparr>"
  have nb: "\<not> bsize blk < 2 * length vs" using assms(5) by (simp add: blk_def)
  have rs: "TIFFReadScanline (tif g) (Some a) row w1 = Inr (True, w2)"
    using nb t1 d1 assms(4)
    by (simp add: TIFFReadScanline_def row_def w1'_def w2_def blk2_def Let_def)
  have d2: "deref (Some a) w2 = Inr (a, blk2)"
    by (simp add: deref_def w2_def w1'_def w1_def a_def emit_def)
  have inb: "\<not> (PixelNo < 0 \<or> int (bsize blk2) < 2 * (PixelNo + 1))"
    using assms(5,6,7) by (simp add: blk2_def blk_def)
  have lt: "nat PixelNo < length vs" using assms(6,7) by simp
  have "cells blk2 (nat PixelNo) = Some (U16 (vs ! nat PixelNo))"
    using storeSamples_nth [OF lt, of 0 "cells blk"] by (simp add: blk2_def)
  then have ld: "loadU16 (Some a) PixelNo w2 = Inr (vs ! nat PixelNo, w2)"
    using d2 inb by (simp add: loadU16_def)
  have "\<exists>w4. free (Some a) w2 = Inr ((), w4)"
    by (simp add: free_def w2_def w1'_def w1_def a_def emit_def)
  then obtain w4 where fr: "free (Some a) w2 = Inr ((), w4)" by blast
  have "readDEMvalue g LineNo PixelNo w = Inr (vs ! nat PixelNo, w4)"
    using m rs ld fr by (simp add: readDEMvalue_def row_def)
  then show ?thesis by blast
qed

text \<open>
  C6. \<open>readDEMvalue\<close> on an open handle, once its temporary buffer is granted: when
  the read of the line succeeds and the pixel number lies within the samples of that
  scanline (which fit the buffer), it returns the sample at that index; when the read
  reports failure it prints the message of the failed read and exits with status 11;
  and it exits only in that case (every other stop is undefined behaviour: a pixel
  number outside the buffer or beyond the samples read).
\<close>

theorem readDEMvalue_value:
  assumes "tiffOf (tif g) w = Inr (k, t)" "0 \<le> scanlineSize g"
    "(case mallocPlan w of [] \<Rightarrow> True | b # _ \<Rightarrow> b)"
  shows "(\<forall>vs. scanlineData t (nat (LineNo mod 2 ^ 32)) = Some vs
              \<and> 2 * int (length vs) \<le> scanlineSize g \<and> 0 \<le> PixelNo \<and> PixelNo < int (length vs)
            \<longrightarrow> outcome (readDEMvalue g LineNo PixelNo w) = Inr (vs ! nat PixelNo))
       \<and> (scanlineData t (nat (LineNo mod 2 ^ 32)) = None
            \<longrightarrow> outcome (readDEMvalue g LineNo PixelNo w) = Inl (Exit 11)
              \<and> last (trace (rworld (readDEMvalue g LineNo PixelNo w))) = Stderr FailedReadingScanline)
       \<and> ((\<exists>n. outcome (readDEMvalue g LineNo PixelNo w) = Inl (Exit n))
            \<longleftrightarrow> scanlineData t (nat (LineNo mod 2 ^ 32)) = None)"
proof -
  have a: "outcome (readDEMvalue g LineNo PixelNo w) = Inr (vs ! nat PixelNo)"
    if "scanlineData t (nat (LineNo mod 2 ^ 32)) = Some vs" "2 * int (length vs) \<le> scanlineSize g"
       "0 \<le> PixelNo" "PixelNo < int (length vs)" for vs
    using readDEMvalue_in_scanline [OF assms that] by (auto simp: outcome_def)
  have b: "outcome (readDEMvalue g LineNo PixelNo w) = Inl (Exit 11)
           \<and> last (trace (rworld (readDEMvalue g LineNo PixelNo w))) = Stderr FailedReadingScanline"
    if "scanlineData t (nat (LineNo mod 2 ^ 32)) = None"
    using readDEMvalue_read_fails [OF assms that, of PixelNo]
    by (auto simp: outcome_def last_emit)
  have c: "\<not> (\<exists>n. outcome (readDEMvalue g LineNo PixelNo w) = Inl (Exit n))"
    if "scanlineData t (nat (LineNo mod 2 ^ 32)) = Some vs" for vs
    using readDEMvalue_read_succeeds [OF assms that, of PixelNo]
    by (auto simp: outcome_def)
  show ?thesis
  proof (cases "scanlineData t (nat (LineNo mod 2 ^ 32))")
    case None
    then show ?thesis using b by auto
  next
    case (Some vs)
    then show ?thesis using a c by auto
  qed
qed

theorem readDEMvalue_value_witness:
  "\<exists>g w k t. setupGtif garbage (Some ''dem.tif'') demoWorld = Inr ((True, g), w)
      \<and> tiffOf (tif g) w = Inr (k, t) \<and> 0 \<le> scanlineSize g
      \<and> scanlineData t 5 = Some (demoRow 5) \<and> demoRow 5 ! 10 = 1234
      \<and> outcome (readDEMvalue g 5 10 w) = Inr 1234
      \<and> scanlineData t 8 = None
      \<and> outcome (readDEMvalue g 8 10 w) = Inl (Exit 11)"
proof -
  have "case setupGtif garbage (Some ''dem.tif'') demoWorld of
          Inl e \<Rightarrow> False
        | Inr ((ok, g), w) \<Rightarrow> ok \<and> scanlineSize g = 24 \<and> mallocPlan w = [] \<and>
            (case tiffOf (tif g) w of Inl f \<Rightarrow> False
             | Inr (k, t) \<Rightarrow> scanlineData t 5 = Some (demoRow 5) \<and> scanlineData t 8 = None)"
    by code_simp
  then obtain g w where s: "setupGtif garbage (Some ''dem.tif'') demoWorld = Inr ((True, g), w)"
    and sz: "scanlineSize g = 24" and pl: "mallocPlan w = []"
    and tc: "case tiffOf (tif g) w of Inl f \<Rightarrow> False
             | Inr (k, t) \<Rightarrow> scanlineData t 5 = Some (demoRow 5) \<and> scanlineData t 8 = None"
    by (cases "setupGtif garbage (Some ''dem.tif'') demoWorld") auto
  then obtain k t where tf: "tiffOf (tif g) w = Inr (k, t)"
    and d5: "scanlineData t 5 = Some (demoRow 5)" and d8: "scanlineData t 8 = None"
    by (cases "tiffOf (tif g) w") auto
  have h2: "0 \<le> scanlineSize g" using sz by simp
  have h3: "(case mallocPlan w of [] \<Rightarrow> True | b # _ \<Rightarrow> b)" using pl by simp
  have len: "length (demoRow 5) = 12" and v: "demoRow 5 ! 10 = 1234"
    by (simp_all add: demoRow_def)
  have r5: "outcome (readDEMvalue g 5 10 w) = Inr 1234"
    using readDEMvalue_value [OF tf h2 h3, of 5 10] d5 len v sz by simp
  have r8: "outcome (readDEMvalue g 8 10 w) = Inl (Exit 11)"
    using readDEMvalue_value [OF tf h2 h3, of 8 10] d8 by simp
  from s tf h2 d5 v r5 d8 r8 show ?thesis by blast
qed

lemma TIFFReadScanline_True:
  assumes "TIFFReadScanline h (Some a) row w = Inr (True, w2)"
  shows "\<exists>k b vs. a < length (heap w) \<and> heap w ! a = Some b
           \<and> heap w2 = (heap w)[a := Some (b\<lparr>cells := storeSamples vs 0 (cells b)\<rparr>)]
           \<and> tifs w2 = tifs w \<and> trace w2 = trace w @ [TiffReadScanline k row]"
  using assms
  by (auto simp: TIFFReadScanline_def deref_def emit_def Let_def
      split: sum.splits option.splits if_splits prod.splits)

lemma TIFFReadScanline_null: "TIFFReadScanline h None row w \<noteq> Inr x"
  by (auto simp: TIFFReadScanline_def deref_def split: sum.splits prod.splits)

lemma loadU16_Inr: "loadU16 p i w = Inr (v, w') \<Longrightarrow> w' = w"
  using loadU16_world [of p i w] by simp

lemma free_Inr:
  assumes "free (Some a) w = Inr (u, w')"
  shows "heap w' = (heap w)[a := None] \<and> tifs w' = tifs w \<and> trace w' = trace w @ [Free a]"
  using assms by (auto simp: free_def emit_def split: if_splits option.splits)

lemma readDEMvalue_frame:
  assumes "readDEMvalue g LineNo PixelNo w = Inr (v, w')"
  shows "heap w' = heap w @ [None] \<and> tifs w' = tifs w
       \<and> (\<exists>k. trace w' = trace w @
             [Malloc (scanlineSize g) (Some (length (heap w))),
              TiffReadScanline k (nat (LineNo mod 2 ^ 32)),
              Free (length (heap w))])"
proof -
  obtain q w1 where m: "malloc (scanlineSize g) w = (q, w1)"
    by (cases "malloc (scanlineSize g) w")
  define row where "row = nat (LineNo mod 2 ^ 32)"
  obtain ok w2 where rs: "TIFFReadScanline (tif g) q row w1 = Inr (ok, w2)"
    using assms m by (auto simp: readDEMvalue_def row_def split: sum.splits)
  have ok: ok using assms m rs by (auto simp: readDEMvalue_def row_def split: if_splits)
  obtain a where q: "q = Some a"
    using rs TIFFReadScanline_null [of "tif g" row w1] by (cases q) auto
  have mc: "a = length (heap w)" "tifs w1 = tifs w"
    "heap w1 = heap w @ [Some \<lparr>bsize = nat (scanlineSize g), cells = Map.empty\<rparr>]"
    using malloc_cases [OF m] q by auto
  have t1: "trace w1 = trace w @ [Malloc (scanlineSize g) (Some a)]"
    using malloc_trace [of "scanlineSize g" w] m q by simp
  obtain k b vs where h2: "heap w2 = (heap w1)[a := Some (b\<lparr>cells := storeSamples vs 0 (cells b)\<rparr>)]"
    and f2: "tifs w2 = tifs w1" and t2: "trace w2 = trace w1 @ [TiffReadScanline k row]"
    using ok rs q TIFFReadScanline_True [of "tif g" a row w1 w2] by auto
  obtain w3 where ld: "loadU16 q PixelNo w2 = Inr (v, w3)"
    using assms m rs ok by (auto simp: readDEMvalue_def row_def split: sum.splits)
  have w3: "w3 = w2" using loadU16_Inr [OF ld] .
  have fr: "free (Some a) w2 = Inr ((), w')"
    using assms m rs ok ld w3 q by (auto simp: readDEMvalue_def row_def split: sum.splits)
  note f = free_Inr [OF fr]
  have "heap w' = heap w @ [None]"
    using f h2 mc by simp
  moreover have "tifs w' = tifs w" using f f2 mc by simp
  moreover have "trace w' = trace w @ [Malloc (scanlineSize g) (Some (length (heap w))),
              TiffReadScanline k (nat (LineNo mod 2 ^ 32)), Free (length (heap w))]"
    using f t2 t1 mc by (simp add: row_def)
  ultimately show ?thesis by blast
qed

subsection \<open>closeGtif\<close>

lemma nonNull_simps [simp]:
  "nonNull [] = []" "nonNull (None # ps) = nonNull ps" "nonNull (Some a # ps) = a # nonNull ps"
  by (simp_all add: nonNull_def)

lemma length_clear [simp]: "length (clear as h) = length h"
  by (induction as arbitrary: h) simp_all

lemma clear_nth:
  "x < length h \<Longrightarrow> clear as h ! x = (if x \<in> set as then None else h ! x)"
  by (induction as arbitrary: h) (auto simp: nth_list_update)

lemma freeScanlines_frees:
  assumes "scanlines g = Some p" "p < length (heap w)" "heap w ! p = Some b"
    "windowSize g = int (length tbl)" "i \<le> length tbl"
    "\<forall>j. i \<le> j \<and> j < length tbl \<longrightarrow> cells b j = Some (Ptr (tbl ! j))"
    "distinct (nonNull (drop i tbl))"
    "\<forall>a \<in> set (nonNull (drop i tbl)). a < length (heap w) \<and> heap w ! a \<noteq> None \<and> a \<noteq> p"
  shows "freeScanlines (int i) g w =
           Inr ((), w\<lparr>heap := clear (nonNull (drop i tbl)) (heap w),
                      trace := trace w @ map Free (nonNull (drop i tbl))\<rparr>)"
  using assms
proof (induction "length tbl - i" arbitrary: i w)
  case 0
  then have "i = length tbl" by simp
  then show ?case using "0.prems"(4) by (simp add: freeScanlines.simps [of "int (length tbl)"])
next
  case (Suc n)
  then have lt: "i < length tbl" by simp
  have dr: "drop i tbl = tbl ! i # drop (Suc i) tbl"
    using lt by (simp add: Cons_nth_drop_Suc)
  have d: "deref (Some p) w = Inr (p, b)"
    using Suc.prems(2,3) by (simp add: deref_def)
  have c: "cells b i = Some (Ptr (tbl ! i))" using Suc.prems(6) lt by simp
  have ld: "loadPtr (scanlines g) (nat (int i)) w = Inr (tbl ! i, w)"
    using d c Suc.prems(1) by (simp add: loadPtr_def)
  have n: "n = length tbl - Suc i" using Suc.hyps(2) by simp
  have cells': "\<forall>j. Suc i \<le> j \<and> j < length tbl \<longrightarrow> cells b j = Some (Ptr (tbl ! j))"
    using Suc.prems(6) by simp
  show ?case
  proof (cases "tbl ! i")
    case None
    have nn: "nonNull (drop i tbl) = nonNull (drop (Suc i) tbl)" using dr None by simp
    have "freeScanlines (int (Suc i)) g w =
           Inr ((), w\<lparr>heap := clear (nonNull (drop (Suc i) tbl)) (heap w),
                      trace := trace w @ map Free (nonNull (drop (Suc i) tbl))\<rparr>)"
      using Suc.hyps(1) [OF n Suc.prems(1,2,3,4) _ cells'] Suc.prems(7,8) lt nn by simp
    then show ?thesis
      using lt Suc.prems(4) ld None nn
      by (simp add: freeScanlines.simps [of "int i"] add.commute)
  next
    case (Some a)
    have nn: "nonNull (drop i tbl) = a # nonNull (drop (Suc i) tbl)" using dr Some by simp
    have a: "a < length (heap w)" "heap w ! a \<noteq> None" "a \<noteq> p"
      "a \<notin> set (nonNull (drop (Suc i) tbl))" "distinct (nonNull (drop (Suc i) tbl))"
      using Suc.prems(7,8) nn by auto
    define w1 where "w1 = emit (Free a) (w\<lparr>heap := (heap w)[a := None]\<rparr>)"
    have fr: "free (Some a) w = Inr ((), w1)"
      using a(1,2) by (auto simp: free_def w1_def)
    have p1: "p < length (heap w1)" "heap w1 ! p = Some b"
      using Suc.prems(2,3) a(3) by (simp_all add: w1_def emit_def)
    have rest: "\<forall>x \<in> set (nonNull (drop (Suc i) tbl)).
                  x < length (heap w1) \<and> heap w1 ! x \<noteq> None \<and> x \<noteq> p"
      using Suc.prems(8) nn a(4) by (auto simp: w1_def emit_def nth_list_update)
    have "freeScanlines (int (Suc i)) g w1 =
           Inr ((), w1\<lparr>heap := clear (nonNull (drop (Suc i) tbl)) (heap w1),
                      trace := trace w1 @ map Free (nonNull (drop (Suc i) tbl))\<rparr>)"
      using Suc.hyps(1) [OF n Suc.prems(1) p1 Suc.prems(4) _ cells' a(5) rest] lt by simp
    then show ?thesis
      using lt Suc.prems(4) ld Some nn fr
      by (simp add: freeScanlines.simps [of "int i"] add.commute w1_def emit_def)
  qed
qed

lemma sessionOpenD:
  assumes "sessionOpen g w tbl"
  shows "\<exists>p b. scanlines g = Some p \<and> p < length (heap w) \<and> heap w ! p = Some b
           \<and> (\<forall>j. j < length tbl \<longrightarrow> cells b j = Some (Ptr (tbl ! j)))
           \<and> p \<notin> set (nonNull tbl)"
    and "windowSize g = int (length tbl)"
    and "distinct (nonNull tbl)"
    and "\<forall>a \<in> set (nonNull tbl). a < length (heap w) \<and> heap w ! a \<noteq> None"
    and "case tif g of None \<Rightarrow> True | Some k \<Rightarrow> k < length (tifs w) \<and> tifs w ! k \<noteq> None"
  using assms
  by (auto simp: sessionOpen_def deref_def list_all_iff
      split: sum.splits option.splits if_splits prod.splits)

lemma closeGtif_open:
  assumes "sessionOpen g w tbl" "scanlines g = Some p"
  shows "\<exists>w'. closeGtif (Some g) w = Inr ((), w')
         \<and> trace w' = trace w @ map Free (nonNull tbl) @ [Free p]
                        @ (case tif g of None \<Rightarrow> [] | Some k \<Rightarrow> [TiffClosed k])
         \<and> heap w' = (clear (nonNull tbl) (heap w))[p := None]
         \<and> tifs w' = (case tif g of None \<Rightarrow> tifs w | Some k \<Rightarrow> (tifs w)[k := None])"
proof -
  note so = sessionOpenD [OF assms(1)]
  from so(1) assms(2) obtain b where p: "p < length (heap w)" "heap w ! p = Some b"
    and c: "\<forall>j. j < length tbl \<longrightarrow> cells b j = Some (Ptr (tbl ! j))"
    and pn: "p \<notin> set (nonNull tbl)" by auto
  define w1 where "w1 = w\<lparr>heap := clear (nonNull tbl) (heap w),
                          trace := trace w @ map Free (nonNull tbl)\<rparr>"
  have fs: "freeScanlines 0 g w = Inr ((), w1)"
    using freeScanlines_frees [OF assms(2) p so(2), of 0] c so(3,4) pn
    by (auto simp: w1_def)
  have p1: "p < length (heap w1)" "heap w1 ! p = Some b"
    using p pn by (simp_all add: w1_def clear_nth)
  define w2 where "w2 = emit (Free p) (w1\<lparr>heap := (heap w1)[p := None]\<rparr>)"
  have fr: "free (scanlines g) w1 = Inr ((), w2)"
    using p1 assms(2) by (simp add: free_def w2_def)
  show ?thesis
  proof (cases "tif g")
    case None
    then have "closeGtif (Some g) w = Inr ((), w2)"
      using fs fr by (simp add: closeGtif_def)
    then show ?thesis using None by (simp add: w2_def w1_def emit_def)
  next
    case (Some k)
    then have k: "k < length (tifs w)" "tifs w ! k \<noteq> None" using so(5) by simp_all
    then obtain t where t: "tifs w ! k = Some t" by auto
    have "tiffOf (Some k) w2 = Inr (k, t)"
      using k t by (simp add: tiffOf_def w2_def w1_def emit_def)
    then have "TIFFClose (tif g) w2 = Inr ((), emit (TiffClosed k) (w2\<lparr>tifs := (tifs w2)[k := None]\<rparr>))"
      using Some by (simp add: TIFFClose_def)
    then have "closeGtif (Some g) w = Inr ((), emit (TiffClosed k) (w2\<lparr>tifs := (tifs w2)[k := None]\<rparr>))"
      using fs fr Some by (simp add: closeGtif_def)
    then show ?thesis using Some by (simp add: w2_def w1_def emit_def)
  qed
qed

text \<open>Closing again: the table has been freed.\<close>

lemma closeGtif_closed:
  assumes "scanlines g = Some p" "p < length (heap w)" "heap w ! p = None"
  shows "outcome (closeGtif (Some g) w) = Inl (Undefined UseAfterFree)
       \<or> outcome (closeGtif (Some g) w) = Inl (Undefined DoubleFree)"
proof (cases "0 < windowSize g")
  case True
  have "loadPtr (scanlines g) (nat 0) w = Inl (Undefined UseAfterFree, w)"
    using assms by (simp add: loadPtr_def deref_def)
  then have "freeScanlines 0 g w = Inl (Undefined UseAfterFree, w)"
    using True by (simp add: freeScanlines.simps [of 0])
  then show ?thesis by (simp add: closeGtif_def outcome_def)
next
  case False
  then have "freeScanlines 0 g w = Inr ((), w)"
    by (simp add: freeScanlines.simps [of 0])
  moreover have "free (scanlines g) w = Inl (Undefined DoubleFree, w)"
    using assms by (simp add: free_def)
  ultimately show ?thesis by (simp add: closeGtif_def outcome_def)
qed

text \<open>The table that the allocation loop fills, and the session a setup leaves.\<close>

lemma storePtr_Inr:
  assumes "storePtr (Some p) i q w = Inr (u, w')" 
  shows "\<exists>b. p < length (heap w) \<and> heap w ! p = Some b
          \<and> w' = w\<lparr>heap := (heap w)[p := Some (b\<lparr>cells := (cells b)(i \<mapsto> Ptr q)\<rparr>)]\<rparr>"
  using assms
  by (auto simp: storePtr_def deref_def split: sum.splits option.splits if_splits prod.splits)

lemma allocScanlines_table:
  assumes "allocScanlines (int i) g w = Inr (u, w')" "scanlines g = Some p"
    "p < length (heap w)" "heap w ! p = Some b" "windowSize g = int n" "i \<le> n"
  shows "length (heap w') = length (heap w) + (n - i)
    \<and> (\<exists>b'. heap w' ! p = Some b' \<and> (\<forall>j. j < i \<longrightarrow> cells b' j = cells b j)
          \<and> (\<forall>j. i \<le> j \<and> j < n \<longrightarrow> cells b' j = Some (Ptr (Some (length (heap w) + (j - i))))))
    \<and> (\<forall>a. length (heap w) \<le> a \<and> a < length (heap w') \<longrightarrow> heap w' ! a \<noteq> None)
    \<and> (\<forall>a. a < length (heap w) \<and> a \<noteq> p \<longrightarrow> heap w' ! a = heap w ! a)
    \<and> tifs w' = tifs w"
  using assms
proof (induction "n - i" arbitrary: i w b)
  case 0
  then have "i = n" by simp
  then have "w' = w" using "0.prems"(1,5) by (simp add: allocScanlines.simps [of "int n"])
  then show ?case using "0.prems"(4) \<open>i = n\<close> by auto
next
  case (Suc m)
  then have lt: "i < n" by simp
  obtain q w1 where m: "malloc (scanlineSize g) w = (q, w1)"
    by (cases "malloc (scanlineSize g) w")
  have step: "(case storePtr (scanlines g) (nat (int i)) q w1 of
           Inl e \<Rightarrow> Inl e
         | Inr (u, w2) \<Rightarrow>
             if q = None
             then Inl (Exit 13, emit (Stderr (CannotAllocateScanline (int i + 1))) w2)
             else allocScanlines (int i + 1) g w2) = Inr (u, w')"
    using Suc.prems(1,5) lt m by (simp add: allocScanlines.simps [of "int i"])
  then obtain u2 w2 where st: "storePtr (Some p) i q w1 = Inr (u2, w2)"
    and rest: "(if q = None
             then Inl (Exit 13, emit (Stderr (CannotAllocateScanline (int i + 1))) w2)
             else allocScanlines (int i + 1) g w2) = Inr (u, w')"
    using Suc.prems(2) by (auto split: sum.splits)
  from rest obtain a where q: "q = Some a" and rec: "allocScanlines (int (Suc i)) g w2 = Inr (u, w')"
    by (cases q) (auto simp: add.commute)
  have mc: "a = length (heap w)" "tifs w1 = tifs w"
    "heap w1 = heap w @ [Some \<lparr>bsize = nat (scanlineSize g), cells = Map.empty\<rparr>]"
    using malloc_cases [OF m] q by auto
  have b1: "heap w1 ! p = Some b" using Suc.prems(3,4) mc by (simp add: nth_append)
  from storePtr_Inr [OF st] b1
  have w2: "w2 = w1\<lparr>heap := (heap w1)[p := Some (b\<lparr>cells := (cells b)(i \<mapsto> Ptr (Some a))\<rparr>)]\<rparr>"
    using q by auto
  define b2 where "b2 = b\<lparr>cells := (cells b)(i \<mapsto> Ptr (Some a))\<rparr>"
  have h2: "heap w2 = (heap w @ [Some \<lparr>bsize = nat (scanlineSize g), cells = Map.empty\<rparr>])[p := Some b2]"
    using w2 mc by (simp add: b2_def)
  have l2: "length (heap w2) = Suc (length (heap w))" using h2 by simp
  have p2: "p < length (heap w2)" "heap w2 ! p = Some b2"
    using Suc.prems(3) h2 by simp_all
  have n: "m = n - Suc i" using Suc.hyps(2) by simp
  from Suc.hyps(1) [OF n rec Suc.prems(2) p2 Suc.prems(5)] lt
  obtain b' where len: "length (heap w') = length (heap w2) + (n - Suc i)"
    and bp: "heap w' ! p = Some b'"
    and old: "\<forall>j. j < Suc i \<longrightarrow> cells b' j = cells b2 j"
    and new: "\<forall>j. Suc i \<le> j \<and> j < n \<longrightarrow> cells b' j = Some (Ptr (Some (length (heap w2) + (j - Suc i))))"
    and live: "\<forall>x. length (heap w2) \<le> x \<and> x < length (heap w') \<longrightarrow> heap w' ! x \<noteq> None"
    and same: "\<forall>x. x < length (heap w2) \<and> x \<noteq> p \<longrightarrow> heap w' ! x = heap w2 ! x"
    and tf: "tifs w' = tifs w2"
    by auto
  have c1: "length (heap w') = length (heap w) + (n - i)" using len l2 lt by simp
  have c2a: "\<forall>j. j < i \<longrightarrow> cells b' j = cells b j"
    using old by (simp add: b2_def)
  have c2b: "\<forall>j. i \<le> j \<and> j < n \<longrightarrow> cells b' j = Some (Ptr (Some (length (heap w) + (j - i))))"
  proof (intro allI impI)
    fix j assume j: "i \<le> j \<and> j < n"
    show "cells b' j = Some (Ptr (Some (length (heap w) + (j - i))))"
    proof (cases "j = i")
      case True
      then show ?thesis using old mc by (simp add: b2_def)
    next
      case False
      then have sj: "Suc i \<le> j \<and> j < n" using j by simp
      from new [rule_format, OF sj]
      have "cells b' j = Some (Ptr (Some (length (heap w2) + (j - Suc i))))" .
      moreover have "length (heap w2) + (j - Suc i) = length (heap w) + (j - i)"
        using l2 sj by arith
      ultimately show ?thesis by simp
    qed
  qed
  have ap: "a \<noteq> p" using mc Suc.prems(3) by simp
  have c3: "\<forall>x. length (heap w) \<le> x \<and> x < length (heap w') \<longrightarrow> heap w' ! x \<noteq> None"
  proof (intro allI impI)
    fix x assume x: "length (heap w) \<le> x \<and> x < length (heap w')"
    show "heap w' ! x \<noteq> None"
    proof (cases "x = a")
      case True
      then have "heap w' ! x = heap w2 ! a" using same l2 mc ap by simp
      then show ?thesis using h2 mc ap by (simp add: nth_append)
    next
      case False
      then show ?thesis using live x l2 mc by simp
    qed
  qed
  have c4: "\<forall>x. x < length (heap w) \<and> x \<noteq> p \<longrightarrow> heap w' ! x = heap w ! x"
    using same l2 h2 by (simp add: nth_append)
  have c5: "tifs w' = tifs w" using tf w2 mc by simp
  from c1 bp c2a c2b c3 c4 c5 show ?case by blast
qed

lemma nonNull_map_Some: "nonNull (map (\<lambda>j. Some (f j)) xs) = map f xs"
  by (induction xs) simp_all

lemma setupOpened_True_alloc:
  assumes "setupOpened g name t w = Inr ((True, g'), w')"
  shows "\<exists>q w1 w2. malloc (scanlineSize g' * windowSize g') w = (q, w1) \<and> scanlines g' = q
           \<and> allocScanlines 0 g' w1 = Inr ((), w2) \<and> heap w' = heap w2 \<and> tifs w' = tifs w2"
  using assms
  by (auto simp: setupOpened_def Let_def emit_def c_div_def
      split: option.splits if_splits sum.splits prod.splits double.splits)

lemma allocScanlines_needs_table:
  "allocScanlines 0 g w = Inr (u, w') \<Longrightarrow> 0 < windowSize g \<Longrightarrow> scanlines g \<noteq> None"
  by (auto simp: allocScanlines.simps [of 0] storePtr_def deref_def
      split: prod.splits sum.splits option.splits)

text \<open>A setup that returned TRUE leaves an open session.\<close>

lemma setupGtif_session:
  assumes "setupGtif g (Some name) w = Inr ((True, g'), w')"
  shows "\<exists>p. scanlines g' = Some p \<and>
           sessionOpen g' w' (map (\<lambda>j. Some (Suc p + j)) [0..<nat (windowSize g')])
         \<and> 0 < windowSize g'"
proof -
  from setupGtif_True [OF assms] obtain t where
    f: "files w name = Some t" and
    so: "setupOpened (g\<lparr>tif := Some (length (tifs w))\<rparr>) name t
             (emit (TiffOpened name (length (tifs w))) (w\<lparr>tifs := tifs w @ [Some t]\<rparr>))
           = Inr ((True, g'), w')" by blast
  define w0 where "w0 = emit (TiffOpened name (length (tifs w))) (w\<lparr>tifs := tifs w @ [Some t]\<rparr>)"
  note fl = setupOpened_True [OF so]
  have tf: "tif g' = Some (length (tifs w))" using fl(8) by simp
  have ws: "0 < windowSize g'" using fl(5) by (simp add: c_int_floor)
  define n where "n = nat (windowSize g')"
  have n: "windowSize g' = int n" using ws by (simp add: n_def)
  from setupOpened_True_alloc [OF so] obtain q w1 w2 where
    m: "malloc (scanlineSize g' * windowSize g') w0 = (q, w1)" and sc: "scanlines g' = q"
    and al: "allocScanlines 0 g' w1 = Inr ((), w2)" and h: "heap w' = heap w2"
    and tfs: "tifs w' = tifs w2"
    by (auto simp: w0_def)
  from allocScanlines_needs_table [OF al ws] sc obtain p where q: "q = Some p" by auto
  have mc: "p = length (heap w0)" "tifs w1 = tifs w0"
    "heap w1 = heap w0 @ [Some \<lparr>bsize = nat (scanlineSize g' * windowSize g'), cells = Map.empty\<rparr>]"
    using malloc_cases [OF m] q by auto
  define b where "b = \<lparr>bsize = nat (scanlineSize g' * windowSize g'), cells = Map.empty\<rparr>"
  have p1: "p < length (heap w1)" "heap w1 ! p = Some b"
    using mc by (simp_all add: b_def)
  have al': "allocScanlines (int 0) g' w1 = Inr ((), w2)" using al by simp
  from allocScanlines_table [OF al' sc [unfolded q] p1 n] obtain b' where
    len: "length (heap w2) = length (heap w1) + n"
    and bp: "heap w2 ! p = Some b'"
    and tb: "\<forall>j. j < n \<longrightarrow> cells b' j = Some (Ptr (Some (length (heap w1) + j)))"
    and live: "\<forall>a. length (heap w1) \<le> a \<and> a < length (heap w2) \<longrightarrow> heap w2 ! a \<noteq> None"
    and tf2: "tifs w2 = tifs w1"
    by auto
  have l1: "length (heap w1) = Suc p" using mc by simp
  define tbl where "tbl = map (\<lambda>j. Some (Suc p + j)) [0..<n]"
  have nn: "nonNull tbl = map (\<lambda>j. Suc p + j) [0..<n]"
    by (simp add: tbl_def nonNull_map_Some)
  have d: "deref (scanlines g') w' = Inr (p, b')"
    using sc q h bp len l1 by (simp add: deref_def)
  have "sessionOpen g' w' tbl"
    unfolding sessionOpen_def
  proof (intro conjI)
    show "windowSize g' = int (length tbl)" using n by (simp add: tbl_def)
    show "case deref (scanlines g') w' of Inl f \<Rightarrow> False
          | Inr (p, b) \<Rightarrow>
              list_all (\<lambda>i. cells b i = Some (Ptr (tbl ! i))) [0..<length tbl] \<and>
              p \<notin> set (nonNull tbl)"
      using d tb l1 by (auto simp: list_all_iff tbl_def nonNull_map_Some)
    show "distinct (nonNull tbl)" by (simp add: nn distinct_map inj_on_def)
    show "list_all (\<lambda>a. a < length (heap w') \<and> heap w' ! a \<noteq> None) (nonNull tbl)"
      using live len l1 h by (auto simp: list_all_iff nn)
    show "case tif g' of None \<Rightarrow> True | Some k \<Rightarrow> k < length (tifs w') \<and> tifs w' ! k \<noteq> None"
      using tf tfs tf2 mc by (simp add: w0_def emit_def nth_append)
  qed
  then show ?thesis using sc q ws by (auto simp: tbl_def n_def)
qed

text \<open>
  C9, as the code has it. \<open>closeGtif\<close> on NULL does nothing. On an open session it
  frees every non-NULL scanline buffer of the table once, in table order, then the
  table, then closes the TIFF handle unless it is NULL; afterwards exactly those blocks
  are freed and that handle is closed. Every session for which \<open>setupGtif\<close> returned
  TRUE is such an open session, its table holding the \<open>windowSize\<close> buffers allocated
  right after it. The function records nowhere that the session is closed:
  a second call with the same session is not a no-op, it reads the freed table (or,
  for an empty table, frees it again), which is undefined.
\<close>

theorem closeGtif_releases:
  "closeGtif None w = Inr ((), w)
   \<and> (sessionOpen g w tbl \<longrightarrow>
       (\<exists>p w'. scanlines g = Some p
          \<and> closeGtif (Some g) w = Inr ((), w')
          \<and> trace w' = trace w @ map Free (nonNull tbl) @ [Free p]
                         @ (case tif g of None \<Rightarrow> [] | Some k \<Rightarrow> [TiffClosed k])
          \<and> distinct (nonNull tbl @ [p])
          \<and> length (heap w') = length (heap w)
          \<and> (\<forall>a. a < length (heap w) \<longrightarrow>
                heap w' ! a = (if a \<in> set (nonNull tbl) \<or> a = p then None else heap w ! a))
          \<and> tifs w' = (case tif g of None \<Rightarrow> tifs w | Some k \<Rightarrow> (tifs w)[k := None])
          \<and> (outcome (closeGtif (Some g) w') = Inl (Undefined UseAfterFree)
             \<or> outcome (closeGtif (Some g) w') = Inl (Undefined DoubleFree))))
   \<and> (setupGtif g0 (Some name) w0 = Inr ((True, g), w) \<longrightarrow>
       (\<exists>p. scanlines g = Some p
          \<and> sessionOpen g w (map (\<lambda>j. Some (Suc p + j)) [0..<nat (windowSize g)])))"
proof (intro conjI impI)
  show "closeGtif None w = Inr ((), w)" by (simp add: closeGtif_def)
next
  assume "setupGtif g0 (Some name) w0 = Inr ((True, g), w)"
  from setupGtif_session [OF this]
  show "\<exists>p. scanlines g = Some p
          \<and> sessionOpen g w (map (\<lambda>j. Some (Suc p + j)) [0..<nat (windowSize g)])"
    by blast
next
  assume so: "sessionOpen g w tbl"
  from sessionOpenD(1) [OF so] obtain p where p: "scanlines g = Some p" "p < length (heap w)"
    "p \<notin> set (nonNull tbl)" by auto
  from closeGtif_open [OF so p(1)] obtain w' where
    c: "closeGtif (Some g) w = Inr ((), w')"
    and t: "trace w' = trace w @ map Free (nonNull tbl) @ [Free p]
                        @ (case tif g of None \<Rightarrow> [] | Some k \<Rightarrow> [TiffClosed k])"
    and h: "heap w' = (clear (nonNull tbl) (heap w))[p := None]"
    and f: "tifs w' = (case tif g of None \<Rightarrow> tifs w | Some k \<Rightarrow> (tifs w)[k := None])"
    by blast
  have d: "distinct (nonNull tbl @ [p])" using sessionOpenD(3) [OF so] p(3) by simp
  have l: "length (heap w') = length (heap w)" using h by simp
  have n: "\<forall>a. a < length (heap w) \<longrightarrow>
                heap w' ! a = (if a \<in> set (nonNull tbl) \<or> a = p then None else heap w ! a)"
    using h p(2,3) by (auto simp: nth_list_update clear_nth)
  have "heap w' ! p = None" using h p(2) by simp
  then have again: "outcome (closeGtif (Some g) w') = Inl (Undefined UseAfterFree)
             \<or> outcome (closeGtif (Some g) w') = Inl (Undefined DoubleFree)"
    using closeGtif_closed [OF p(1), of w'] p(2) l by simp
  from p(1) c t d l n f again
  show "\<exists>p w'. scanlines g = Some p
          \<and> closeGtif (Some g) w = Inr ((), w')
          \<and> trace w' = trace w @ map Free (nonNull tbl) @ [Free p]
                         @ (case tif g of None \<Rightarrow> [] | Some k \<Rightarrow> [TiffClosed k])
          \<and> distinct (nonNull tbl @ [p])
          \<and> length (heap w') = length (heap w)
          \<and> (\<forall>a. a < length (heap w) \<longrightarrow>
                heap w' ! a = (if a \<in> set (nonNull tbl) \<or> a = p then None else heap w ! a))
          \<and> tifs w' = (case tif g of None \<Rightarrow> tifs w | Some k \<Rightarrow> (tifs w)[k := None])
          \<and> (outcome (closeGtif (Some g) w') = Inl (Undefined UseAfterFree)
             \<or> outcome (closeGtif (Some g) w') = Inl (Undefined DoubleFree))"
    by blast
qed

theorem closeGtif_releases_witness:
  "\<exists>g w p w'. setupGtif garbage (Some ''dem.tif'') demoWorld = Inr ((True, g), w)
     \<and> sessionOpen g w [Some 1, Some 2, Some 3]
     \<and> scanlines g = Some p \<and> closeGtif (Some g) w = Inr ((), w')
     \<and> trace w' = trace w @ [Free 1, Free 2, Free 3, Free p] @ [TiffClosed 0]
     \<and> p = 0"
proof -
  have "case setupGtif garbage (Some ''dem.tif'') demoWorld of
          Inl e \<Rightarrow> False
        | Inr ((ok, g), w) \<Rightarrow> ok \<and> sessionOpen g w [Some 1, Some 2, Some 3]
             \<and> tif g = Some 0 \<and> scanlines g = Some 0"
    by code_simp
  then obtain g w where s: "setupGtif garbage (Some ''dem.tif'') demoWorld = Inr ((True, g), w)"
    and so: "sessionOpen g w [Some 1, Some 2, Some 3]" and tf: "tif g = Some 0"
    and sc: "scanlines g = Some 0"
    by (cases "setupGtif garbage (Some ''dem.tif'') demoWorld") auto
  from closeGtif_releases [of w g "[Some 1, Some 2, Some 3]" garbage "''dem.tif''" demoWorld] so tf sc
  obtain w' where "closeGtif (Some g) w = Inr ((), w')"
     "trace w' = trace w @ [Free 1, Free 2, Free 3, Free 0] @ [TiffClosed 0]"
    by auto
  with s so sc show ?thesis by blast
qed

text \<open>
  C9, the counterexample. A second close is not a no-op: on the sample raster, the
  second call with the same session reads the table that the first call freed.
\<close>

theorem close_twice_counterexample:
  "case setupGtif garbage (Some ''dem.tif'') demoWorld of
     Inl e \<Rightarrow> False
   | Inr ((ok, g), w) \<Rightarrow>
       ok \<and> (case closeGtif (Some g) w of
          Inl e \<Rightarrow> False
        | Inr (u, w1) \<Rightarrow> outcome (closeGtif (Some g) w1) = Inl (Undefined UseAfterFree))"
  by code_simp

subsection \<open>readDEMvalue leaves the session alone\<close>

lemma sessionOpen_assumeBox: "sessionOpen (assumeBox g) w tbl = sessionOpen g w tbl"
  by (simp add: sessionOpen_def assumeBox_size)

lemma deref_heap_append:
  "deref p w = Inr x \<Longrightarrow> heap w' = heap w @ xs \<Longrightarrow> deref p w' = Inr x"
  by (auto simp: deref_def nth_append split: option.splits if_splits)

lemma sessionOpen_heap_append:
  assumes "sessionOpen g w tbl" "heap w' = heap w @ xs" "tifs w' = tifs w"
  shows "sessionOpen g w' tbl"
proof -
  from assms(1) obtain x where d: "deref (scanlines g) w = Inr x"
    by (cases "deref (scanlines g) w") (auto simp: sessionOpen_def)
  have d': "deref (scanlines g) w' = Inr x" by (rule deref_heap_append [OF d assms(2)])
  show ?thesis
    using assms d d' by (auto simp: sessionOpen_def list_all_iff nth_append split: option.splits)
qed

text \<open>
  C10. \<open>readDEMvalue\<close> only reads the struct it is given (the model hands it over by
  value and gets none back). A call that returns has allocated one new block, the
  temporary buffer, and freed it again: the heap is the heap before the call plus that
  freed block, so the scanline table and every scanline buffer of the session are
  as they were, the TIFF handles are as they were, and a session that was open is
  still open. \<open>lineNo\<close> is -1 when \<open>setupGtif\<close> has returned TRUE, the assignments of
  lines 45-62 keep it, and no later statement of \<open>main\<close> assigns the struct.
\<close>

theorem readDEMvalue_leaves_session:
  assumes "setupGtif g0 (Some name) w0 = Inr ((True, g1), w1)"
    and "readDEMvalue (assumeBox g1) LineNo PixelNo w = Inr (v, w')"
  shows "lineNo g1 = - 1 \<and> lineNo (assumeBox g1) = - 1
       \<and> heap w' = heap w @ [None] \<and> tifs w' = tifs w
       \<and> (\<exists>k. trace w' = trace w @
             [Malloc (scanlineSize g1) (Some (length (heap w))),
              TiffReadScanline k (nat (LineNo mod 2 ^ 32)),
              Free (length (heap w))])
       \<and> (\<forall>tbl. sessionOpen (assumeBox g1) w tbl \<longrightarrow> sessionOpen (assumeBox g1) w' tbl)"
proof -
  from setupGtif_True [OF assms(1)] obtain t where
    so: "setupOpened (g0\<lparr>tif := Some (length (tifs w0))\<rparr>) name t
             (emit (TiffOpened name (length (tifs w0))) (w0\<lparr>tifs := tifs w0 @ [Some t]\<rparr>))
           = Inr ((True, g1), w1)" by blast
  have l: "lineNo g1 = - 1" by (rule setupOpened_True(7) [OF so])
  note f = readDEMvalue_frame [OF assms(2)]
  have s: "sessionOpen (assumeBox g1) w' tbl" if "sessionOpen (assumeBox g1) w tbl" for tbl
    using sessionOpen_heap_append [OF that, of w' "[None]"] f by simp
  from l f s show ?thesis by (simp add: assumeBox_size)
qed

theorem readDEMvalue_leaves_session_witness:
  "\<exists>g1 w1 w'. setupGtif garbage (Some ''dem.tif'') demoWorld = Inr ((True, g1), w1)
     \<and> readDEMvalue (assumeBox g1) 5 10 w1 = Inr (1234, w')
     \<and> lineNo (assumeBox g1) = - 1
     \<and> sessionOpen (assumeBox g1) w1 [Some 1, Some 2, Some 3]
     \<and> sessionOpen (assumeBox g1) w' [Some 1, Some 2, Some 3]
     \<and> heap w' = heap w1 @ [None]
     \<and> (\<exists>k. trace w' = trace w1 @ [Malloc 24 (Some 4), TiffReadScanline k 5, Free 4])"
proof -
  have "case setupGtif garbage (Some ''dem.tif'') demoWorld of
          Inl e \<Rightarrow> False
        | Inr ((ok, g), w) \<Rightarrow> ok \<and> sessionOpen (assumeBox g) w [Some 1, Some 2, Some 3]
             \<and> scanlineSize g = 24 \<and> length (heap w) = 4
             \<and> (case readDEMvalue (assumeBox g) 5 10 w of Inl e \<Rightarrow> False
                | Inr (v, w') \<Rightarrow> v = 1234)"
    by code_simp
  then obtain g1 w1 where s: "setupGtif garbage (Some ''dem.tif'') demoWorld = Inr ((True, g1), w1)"
    and so: "sessionOpen (assumeBox g1) w1 [Some 1, Some 2, Some 3]"
    and sz: "scanlineSize g1 = 24" "length (heap w1) = 4"
    and rc: "case readDEMvalue (assumeBox g1) 5 10 w1 of Inl e \<Rightarrow> False
                | Inr (v, w') \<Rightarrow> v = 1234"
    by (cases "setupGtif garbage (Some ''dem.tif'') demoWorld") auto
  then obtain w' where r: "readDEMvalue (assumeBox g1) 5 10 w1 = Inr (1234, w')"
    by (cases "readDEMvalue (assumeBox g1) 5 10 w1") auto
  from readDEMvalue_leaves_session [OF s r] so sz
  have "lineNo (assumeBox g1) = - 1"
     "sessionOpen (assumeBox g1) w' [Some 1, Some 2, Some 3]"
     "heap w' = heap w1 @ [None]"
     "\<exists>k. trace w' = trace w1 @ [Malloc 24 (Some 4), TiffReadScanline k 5, Free 4]"
    by auto
  with s r so show ?thesis by blast
qed

subsection \<open>A file that cannot be opened\<close>

text \<open>
  C3. When the file cannot be opened, \<open>setupGtif\<close> prints its message and returns
  FALSE with \<open>tif\<close> set to NULL and nothing else of the struct written. \<open>main\<close>
  does not test the returned value: it goes on with the range checks on the
  uninitialised struct and, when they pass, hands the NULL handle to
  \<open>TIFFReadScanline\<close>. On the sample world, with Lat = -13 and Long = 110, the run
  ends in that undefined call after printing the timing line; with Lat = 0 it ends in
  the latitude check, not at the failed open.
\<close>

theorem open_failure_is_not_terminal:
  "files demoWorld ''nofile.tif'' = None
   \<and> outcome (setupGtif garbage (Some ''nofile.tif'') (demoWorld\<lparr>verbose := True\<rparr>))
       = Inr (False, garbage\<lparr>tif := None\<rparr>)
   \<and> fst (main garbage ''nofile.tif'' (- 13) 110 demoWorld) = Undefined NullHandle
   \<and> trace (snd (main garbage ''nofile.tif'' (- 13) 110 demoWorld))
       = [Stderr (CannotOpenFile ''nofile.tif''), StdoutCpuTime, Malloc 6 (Some 0)]
   \<and> main garbage ''nofile.tif'' 0 110 demoWorld
       = (Exit 1, emit (Stderr (LatOutOfRange 0))
                    (emit (Stderr (CannotOpenFile ''nofile.tif'')) (demoWorld\<lparr>verbose := True\<rparr>)))"
proof -
  have a: "files demoWorld ''nofile.tif'' = None" by (simp add: demoWorld_def)
  have s: "setupGtif garbage (Some ''nofile.tif'') (demoWorld\<lparr>verbose := True\<rparr>)
             = Inr ((False, garbage\<lparr>tif := None\<rparr>),
                    emit (Stderr (CannotOpenFile ''nofile.tif'')) (demoWorld\<lparr>verbose := True\<rparr>))"
    using a by (simp add: setupGtif_def TIFFOpen_def)
  have b: "outcome (setupGtif garbage (Some ''nofile.tif'') (demoWorld\<lparr>verbose := True\<rparr>))
       = Inr (False, garbage\<lparr>tif := None\<rparr>)"
    by (simp add: s outcome_def)
  have c: "fst (main garbage ''nofile.tif'' (- 13) 110 demoWorld) = Undefined NullHandle"
    by code_simp
  have d: "trace (snd (main garbage ''nofile.tif'' (- 13) 110 demoWorld))
       = [Stderr (CannotOpenFile ''nofile.tif''), StdoutCpuTime, Malloc 6 (Some 0)]"
    by code_simp
  have e: "main garbage ''nofile.tif'' 0 110 demoWorld
       = (Exit 1, emit (Stderr (LatOutOfRange 0))
                    (emit (Stderr (CannotOpenFile ''nofile.tif'')) (demoWorld\<lparr>verbose := True\<rparr>)))"
    by (simp add: main_def s checkLatLong_def assumeBox_corners)
  from a b c d e show ?thesis by simp
qed

end
